theory Spec2Isabelle
  imports Main "HOL-Library.Word"
begin

unbundle bit_operations_syntax

section \<open>conn-exporter: the connection-table decoder and the interface resolver\<close>

text \<open>
  A shallow embedding of \<^verbatim>\<open>main.go\<close>. Go strings are byte sequences and are modelled as
  \<open>string\<close> (a list of 8-bit characters); a \<^verbatim>\<open>[]byte\<close> and a \<^verbatim>\<open>net.IP\<close> are lists of
  8-bit words. Every error return of the source is a value of the type \<open>error\<close>. The
  process-wide variable \<^verbatim>\<open>interfaceCache\<close> and the observable effects (log lines, files
  opened, calls of \<^verbatim>\<open>net.Interfaces\<close>) are fields of an explicit state record that every
  stateful function takes and returns.
\<close>

type_synonym byte = "8 word"

subsection \<open>Errors\<close>

text \<open>
  One constructor per error value the program can hold: the three \<^verbatim>\<open>fmt.Errorf\<close> calls of
  \<^verbatim>\<open>parseAddress\<close>, the two errors of \<^verbatim>\<open>encoding/hex\<close>, \<^verbatim>\<open>*strconv.NumError\<close> (with
  the text that was parsed and \<^verbatim>\<open>ErrSyntax\<close> or \<^verbatim>\<open>ErrRange\<close>), and an opaque error of the
  operating system (\<^verbatim>\<open>os.Open\<close>, \<^verbatim>\<open>net.Interfaces\<close>, \<^verbatim>\<open>Addrs\<close>).
\<close>

datatype numErr = ErrSyntax | ErrRange

datatype error =
    InvalidAddressFormat string
  | InvalidByteError char
  | ErrLength
  | NumError string numErr
  | IPv6Disabled
  | InvalidIPLength nat
  | SysError string

subsection \<open>The Go library functions the program calls\<close>

text \<open>
  \<^verbatim>\<open>strings.Split(s, sep)\<close> for a separator of one byte: the pieces between the
  separators, in order; always at least one piece.
\<close>

fun strings_Split :: "char \<Rightarrow> string \<Rightarrow> string list" where
  "strings_Split sep [] = [[]]"
| "strings_Split sep (c # cs) =
     (if c = sep then [] # strings_Split sep cs
      else (case strings_Split sep cs of
              [] \<Rightarrow> [[c]]
            | p # ps \<Rightarrow> (c # p) # ps))"

text \<open>
  The digit table shared by \<^verbatim>\<open>encoding/hex\<close> (\<^verbatim>\<open>reverseHexTable\<close>) and by
  \<^verbatim>\<open>strconv.ParseUint\<close> in base 16: both accept exactly \<^verbatim>\<open>0-9\<close>, \<^verbatim>\<open>a-f\<close> and \<^verbatim>\<open>A-F\<close>.
\<close>

definition reverseHexTable :: "(char \<times> nat) list" where
  "reverseHexTable =
     [(CHR ''0'', 0), (CHR ''1'', 1), (CHR ''2'', 2), (CHR ''3'', 3), (CHR ''4'', 4),
      (CHR ''5'', 5), (CHR ''6'', 6), (CHR ''7'', 7), (CHR ''8'', 8), (CHR ''9'', 9),
      (CHR ''a'', 10), (CHR ''b'', 11), (CHR ''c'', 12), (CHR ''d'', 13), (CHR ''e'', 14),
      (CHR ''f'', 15),
      (CHR ''A'', 10), (CHR ''B'', 11), (CHR ''C'', 12), (CHR ''D'', 13), (CHR ''E'', 14),
      (CHR ''F'', 15)]"

definition fromHexChar :: "char \<Rightarrow> nat option" where
  "fromHexChar c = map_of reverseHexTable c"

text \<open>
  \<^verbatim>\<open>hex.DecodeString\<close>: two characters per byte, \<^verbatim>\<open>(a << 4) | b\<close>; the first invalid
  character is reported as \<^verbatim>\<open>InvalidByteError\<close>; a string of odd length whose characters
  are all valid is \<^verbatim>\<open>ErrLength\<close>.
\<close>

fun hex_DecodeString :: "string \<Rightarrow> error + byte list" where
  "hex_DecodeString [] = Inr []"
| "hex_DecodeString [c] =
     (case fromHexChar c of
        None \<Rightarrow> Inl (InvalidByteError c)
      | Some a \<Rightarrow> Inl ErrLength)"
| "hex_DecodeString (p # q # rest) =
     (case fromHexChar p of
        None \<Rightarrow> Inl (InvalidByteError p)
      | Some a \<Rightarrow>
         (case fromHexChar q of
            None \<Rightarrow> Inl (InvalidByteError q)
          | Some b \<Rightarrow>
             (case hex_DecodeString rest of
                Inl e \<Rightarrow> Inl e
              | Inr bs \<Rightarrow> Inr ((push_bit 4 (of_nat a) OR of_nat b) # bs))))"

text \<open>
  \<^verbatim>\<open>strconv.ParseUint(s, 16, 64)\<close>: the empty string is a syntax error; the digits are
  accumulated from the left, and the first character that is no digit (syntax) or the
  first digit that takes the value past \<open>2^64 - 1\<close> (range) ends the parse. With an
  explicit base 16 no prefix and no underscore is accepted.
\<close>

definition maxUint64 :: nat where
  "maxUint64 = 2 ^ 64 - 1"

fun parseUintLoop :: "nat \<Rightarrow> string \<Rightarrow> numErr + nat" where
  "parseUintLoop n [] = Inr n"
| "parseUintLoop n (c # cs) =
     (case fromHexChar c of
        None \<Rightarrow> Inl ErrSyntax
      | Some d \<Rightarrow>
         (if n \<ge> maxUint64 div 16 + 1 then Inl ErrRange
          else if n * 16 + d > maxUint64 then Inl ErrRange
          else parseUintLoop (n * 16 + d) cs))"

definition strconv_ParseUint :: "string \<Rightarrow> numErr + nat" where
  "strconv_ParseUint s = (if s = [] then Inl ErrSyntax else parseUintLoop 0 s)"

text \<open>
  \<^verbatim>\<open>strconv.ParseInt(s, 16, 64)\<close>: an optional leading \<^verbatim>\<open>+\<close> or \<^verbatim>\<open>-\<close>, then
  \<^verbatim>\<open>ParseUint\<close>; the result must fit a signed 64-bit integer. The error carries the whole
  input.
\<close>

definition strconv_ParseInt :: "string \<Rightarrow> error + int" where
  "strconv_ParseInt s0 =
     (if s0 = [] then Inl (NumError s0 ErrSyntax)
      else
        let neg = (hd s0 = CHR ''-'');
            s = (if hd s0 = CHR ''+'' \<or> hd s0 = CHR ''-'' then tl s0 else s0)
        in (case strconv_ParseUint s of
              Inl ErrSyntax \<Rightarrow> Inl (NumError s0 ErrSyntax)
            | Inl ErrRange \<Rightarrow> Inl (NumError s0 ErrRange)
            | Inr un \<Rightarrow>
               (if \<not> neg \<and> un \<ge> 2 ^ 63 then Inl (NumError s0 ErrRange)
                else if neg \<and> un > 2 ^ 63 then Inl (NumError s0 ErrRange)
                else Inr (if neg then - int un else int un))))"

text \<open>Decimal output: \<^verbatim>\<open>uitoa\<close> of package \<^verbatim>\<open>net\<close> and \<^verbatim>\<open>strconv.FormatInt(n, 10)\<close>.\<close>

definition digitChar :: "nat \<Rightarrow> char" where
  \<comment> \<open>\<^verbatim>\<open>byte('0' + d)\<close>, only ever called with \<open>d < 10\<close>\<close>
  "digitChar d = ''0123456789'' ! d"

fun uitoa :: "nat \<Rightarrow> string" where
  "uitoa n = (if n < 10 then [digitChar n] else uitoa (n div 10) @ [digitChar (n mod 10)])"

declare uitoa.simps [simp del]

definition strconv_FormatInt :: "int \<Rightarrow> string" where
  "strconv_FormatInt i = (if i < 0 then CHR ''-'' # uitoa (nat (- i)) else uitoa (nat i))"

text \<open>
  \<^verbatim>\<open>net.IP\<close> is a byte slice; the nil slice is the empty list (every method used here
  treats the two alike). \<^verbatim>\<open>To4\<close> returns the four bytes of an IPv4 address, also from
  its 16-byte IPv4-in-IPv6 form, and nil (\<open>None\<close>) otherwise.
\<close>

type_synonym IP = "byte list"

definition IP_To4 :: "IP \<Rightarrow> IP option" where
  "IP_To4 ip =
     (if length ip = 4 then Some ip
      else if length ip = 16 \<and> take 10 ip = replicate 10 0 \<and> ip ! 10 = 255 \<and> ip ! 11 = 255
           then Some (drop 12 ip)
      else None)"

definition IPv6loopback :: IP where
  "IPv6loopback = replicate 15 0 @ [1]"

definition IP_IsLoopback :: "IP \<Rightarrow> bool" where
  "IP_IsLoopback ip =
     (case IP_To4 ip of
        Some ip4 \<Rightarrow> hd ip4 = 127
      | None \<Rightarrow> ip = IPv6loopback)"

text \<open>\<^verbatim>\<open>String\<close> of a 4-byte address: the four octets in decimal, joined by dots.\<close>

fun ipv4String :: "IP \<Rightarrow> string" where
  "ipv4String [a, b, c, d] =
     uitoa (unat a) @ ''.'' @ uitoa (unat b) @ ''.'' @ uitoa (unat c) @ ''.'' @ uitoa (unat d)"
| "ipv4String ip = ''?''"

text \<open>
  \<^verbatim>\<open>strings.HasPrefix\<close>, and \<^verbatim>\<open>strings.Fields\<close>: the maximal runs of bytes between white
  space, where white space is \<^verbatim>\<open>unicode.IsSpace\<close> read through UTF-8. \<open>spaceWidth\<close> is
  the number of bytes of the white-space character a string starts with (0 when it
  starts with none): the six ASCII ones, U+0085, U+00A0, U+1680, U+2000 to U+200A,
  U+2028, U+2029, U+202F, U+205F and U+3000.
\<close>

definition strings_HasPrefix :: "string \<Rightarrow> string \<Rightarrow> bool" where
  "strings_HasPrefix s pre = (length pre \<le> length s \<and> take (length pre) s = pre)"

definition spaceWidth :: "string \<Rightarrow> nat" where
  "spaceWidth s =
     (case map of_char s :: nat list of
        [] \<Rightarrow> 0
      | b0 # r \<Rightarrow>
         (if b0 = 9 \<or> b0 = 10 \<or> b0 = 11 \<or> b0 = 12 \<or> b0 = 13 \<or> b0 = 32 then 1
          else if b0 = 194 then
            (case r of
               b1 # _ \<Rightarrow> if b1 = 133 \<or> b1 = 160 then 2 else 0
             | [] \<Rightarrow> 0)
          else if b0 = 225 \<or> b0 = 226 \<or> b0 = 227 then
            (case r of
               b1 # b2 # _ \<Rightarrow>
                 if b0 = 225 \<and> b1 = 154 \<and> b2 = 128 then 3
                 else if b0 = 226 \<and> b1 = 128 \<and>
                         ((128 \<le> b2 \<and> b2 \<le> 138) \<or> b2 = 168 \<or> b2 = 169 \<or> b2 = 175) then 3
                 else if b0 = 226 \<and> b1 = 129 \<and> b2 = 159 then 3
                 else if b0 = 227 \<and> b1 = 128 \<and> b2 = 128 then 3
                 else 0
             | _ \<Rightarrow> 0)
          else 0))"

fun fieldsFrom :: "string \<Rightarrow> string \<Rightarrow> string list" where
  "fieldsFrom cur [] = (if cur = [] then [] else [cur])"
| "fieldsFrom cur (c # cs) =
     (if spaceWidth (c # cs) = 0 then fieldsFrom (cur @ [c]) cs
      else (if cur = [] then [] else [cur]) @ fieldsFrom [] (drop (spaceWidth (c # cs) - 1) cs))"

definition strings_Fields :: "string \<Rightarrow> string list" where
  "strings_Fields s = fieldsFrom [] s"

subsection \<open>The address codec and the state mapper\<close>

definition parseAddress :: "string \<Rightarrow> error + (string \<times> string)" where
  "parseAddress addr =
     (case strings_Split (CHR '':'') addr of
        [h, p] \<Rightarrow>
          (case hex_DecodeString h of
             Inl err \<Rightarrow> Inl err
           | Inr ipBytes \<Rightarrow>
              (case strconv_ParseInt p of
                 Inl err \<Rightarrow> Inl err
               | Inr port \<Rightarrow>
                  (if length ipBytes = 4 then
                     Inr (ipv4String [ipBytes ! 3, ipBytes ! 2, ipBytes ! 1, ipBytes ! 0],
                          strconv_FormatInt port)
                   else if length ipBytes = 16 then Inl IPv6Disabled
                   else Inl (InvalidIPLength (length ipBytes)))))
      | _ \<Rightarrow> Inl (InvalidAddressFormat addr))"

definition connectionState :: "string \<Rightarrow> string" where
  "connectionState s =
     (if s = ''01'' then ''ESTABLISHED''
      else if s = ''02'' then ''SYN_SENT''
      else if s = ''03'' then ''SYN_RECV''
      else if s = ''04'' then ''FIN_WAIT1''
      else if s = ''05'' then ''FIN_WAIT2''
      else if s = ''06'' then ''TIME_WAIT''
      else if s = ''07'' then ''CLOSE''
      else if s = ''08'' then ''CLOSE_WAIT''
      else if s = ''09'' then ''LAST_ACK''
      else if s = ''0A'' then ''LISTEN''
      else if s = ''0B'' then ''CLOSING''
      else ''UNKNOWN'')"

subsection \<open>The host: interfaces and connection tables\<close>

text \<open>
  What the operating system answers. The \<open>n\<close>-th call of \<^verbatim>\<open>net.Interfaces()\<close> returns
  \<open>net_Interfaces os n\<close>, so the interfaces may change between two calls; each
  interface of an answer carries what its \<^verbatim>\<open>Addrs()\<close> method returns (the same each
  time it is asked of that value). \<^verbatim>\<open>net.Flags\<close> is a \<^verbatim>\<open>uint\<close>, 64 bits wide on the
  machines the exporter is built for, with \<^verbatim>\<open>FlagUp = 1 << 0\<close> and
  \<^verbatim>\<open>FlagLoopback = 1 << 2\<close>. \<open>os_Open os file\<close> is the open error, or the lines
  \<^verbatim>\<open>bufio.Scanner\<close> delivers from the file, the header line first.
\<close>

datatype Addr = IPNet IP "byte list" | IPAddr IP string | OtherAddr

record Interface =
  Name :: string
  Flags :: "64 word"
  Addrs :: "error + Addr list"

definition FlagUp :: "64 word" where
  "FlagUp = 1"

definition FlagLoopback :: "64 word" where
  "FlagLoopback = 4"

record hostOS =
  net_Interfaces :: "nat \<Rightarrow> error + Interface list"
  os_Open :: "string \<Rightarrow> error + string list"

text \<open>The lines the program writes with \<^verbatim>\<open>log.Printf\<close>, by call site.\<close>

datatype logLine =
    WarnAddrs string error
  | ErrGetInterfaces error
  | ErrRefreshInterfaces error
  | ErrParseLocal error
  | ErrParseRemote error
  | ErrTCPConnections error

text \<open>
  The state of the process: the global \<^verbatim>\<open>interfaceCache\<close> (\<open>None\<close> is the nil map), the
  number of \<^verbatim>\<open>net.Interfaces()\<close> calls made so far, the log, and the files opened.
\<close>

record procState =
  interfaceCache :: "(string \<rightharpoonup> string) option"
  ifaceCalls :: nat
  logged :: "logLine list"
  opened :: "string list"

subsection \<open>The interface resolver\<close>

definition addrIP :: "Addr \<Rightarrow> IP option" where
  "addrIP addr = (case addr of IPNet ip msk \<Rightarrow> Some ip | IPAddr ip zone \<Rightarrow> Some ip | OtherAddr \<Rightarrow> None)"

fun mapAddrs :: "string \<Rightarrow> Addr list \<Rightarrow> (string \<rightharpoonup> string) \<Rightarrow> (string \<rightharpoonup> string)" where
  "mapAddrs name [] m = m"
| "mapAddrs name (addr # addrs) m =
     (case addrIP addr of
        None \<Rightarrow> mapAddrs name addrs m
      | Some ip \<Rightarrow>
         (if ip \<noteq> [] then
            (case IP_To4 ip of
               Some ip4 \<Rightarrow>
                 if \<not> IP_IsLoopback ip then mapAddrs name addrs (m(ipv4String ip4 \<mapsto> name))
                 else mapAddrs name addrs m
             | None \<Rightarrow> mapAddrs name addrs m)
          else mapAddrs name addrs m))"

fun mapInterfaces ::
  "Interface list \<Rightarrow> (string \<rightharpoonup> string) \<Rightarrow> logLine list \<Rightarrow> (string \<rightharpoonup> string) \<times> logLine list" where
  "mapInterfaces [] m lg = (m, lg)"
| "mapInterfaces (iface # rest) m lg =
     (if Flags iface AND FlagUp = 0 \<or> Flags iface AND FlagLoopback \<noteq> 0 then
        mapInterfaces rest m lg
      else
        (case Addrs iface of
           Inl err \<Rightarrow> mapInterfaces rest m (lg @ [WarnAddrs (Name iface) err])
         | Inr addrs \<Rightarrow> mapInterfaces rest (mapAddrs (Name iface) addrs m) lg))"

definition getNetworkInterfaces ::
  "hostOS \<Rightarrow> procState \<Rightarrow> (error + (string \<rightharpoonup> string)) \<times> procState" where
  "getNetworkInterfaces os s =
     (case net_Interfaces os (ifaceCalls s) of
        Inl err \<Rightarrow> (Inl err, s\<lparr>ifaceCalls := Suc (ifaceCalls s)\<rparr>)
      | Inr interfaces \<Rightarrow>
         (case mapInterfaces interfaces Map.empty (logged s) of
            (ipToInterface, lg) \<Rightarrow>
              (Inr ipToInterface, s\<lparr>ifaceCalls := Suc (ifaceCalls s), logged := lg\<rparr>)))"

fun hasIPv4Net :: "Addr list \<Rightarrow> bool" where
  "hasIPv4Net [] = False"
| "hasIPv4Net (addr # addrs) =
     (case addr of
        IPNet ip msk \<Rightarrow> if IP_To4 ip \<noteq> None then True else hasIPv4Net addrs
      | _ \<Rightarrow> hasIPv4Net addrs)"

text \<open>The two loops of \<^verbatim>\<open>getPrimaryInterface\<close>; \<open>None\<close> when a loop ends without returning.\<close>

fun preferEthernet :: "Interface list \<Rightarrow> string option" where
  "preferEthernet [] = None"
| "preferEthernet (iface # rest) =
     (if Flags iface AND FlagLoopback \<noteq> 0 \<or> Flags iface AND FlagUp = 0 then preferEthernet rest
      else if strings_HasPrefix (Name iface) ''eth'' \<or> strings_HasPrefix (Name iface) ''en'' then
        (case Addrs iface of
           Inl err \<Rightarrow> preferEthernet rest
         | Inr addrs \<Rightarrow> if hasIPv4Net addrs then Some (Name iface) else preferEthernet rest)
      else preferEthernet rest)"

fun firstUpIPv4 :: "Interface list \<Rightarrow> string option" where
  "firstUpIPv4 [] = None"
| "firstUpIPv4 (iface # rest) =
     (if Flags iface AND FlagLoopback \<noteq> 0 \<or> Flags iface AND FlagUp = 0 then firstUpIPv4 rest
      else
        (case Addrs iface of
           Inl err \<Rightarrow> firstUpIPv4 rest
         | Inr addrs \<Rightarrow> if hasIPv4Net addrs then Some (Name iface) else firstUpIPv4 rest))"

definition getPrimaryInterface :: "hostOS \<Rightarrow> procState \<Rightarrow> string \<times> procState" where
  "getPrimaryInterface os s =
     (case net_Interfaces os (ifaceCalls s) of
        Inl err \<Rightarrow> (''unknown'', s\<lparr>ifaceCalls := Suc (ifaceCalls s)\<rparr>)
      | Inr interfaces \<Rightarrow>
         (case preferEthernet interfaces of
            Some name \<Rightarrow> (name, s\<lparr>ifaceCalls := Suc (ifaceCalls s)\<rparr>)
          | None \<Rightarrow>
             (case firstUpIPv4 interfaces of
                Some name \<Rightarrow> (name, s\<lparr>ifaceCalls := Suc (ifaceCalls s)\<rparr>)
              | None \<Rightarrow> (''unknown'', s\<lparr>ifaceCalls := Suc (ifaceCalls s)\<rparr>))))"

text \<open>
  \<^verbatim>\<open>getInterfaceForIP\<close>: the lazy initialisation of the cache, the exact-match lookup, and
  the \<^verbatim>\<open>switch\<close> on the special addresses, in the order of the source. An assignment
  \<^verbatim>\<open>interfaceCache, err = getNetworkInterfaces()\<close> that fails stores the nil map.
\<close>

definition getInterfaceForIP :: "hostOS \<Rightarrow> string \<Rightarrow> procState \<Rightarrow> string \<times> procState" where
  "getInterfaceForIP os ip s0 =
     (case (case interfaceCache s0 of
              Some cache \<Rightarrow> Inr (cache, s0)
            | None \<Rightarrow>
               (case getNetworkInterfaces os s0 of
                  (Inl err, s1) \<Rightarrow>
                    Inl (s1\<lparr>interfaceCache := None, logged := logged s1 @ [ErrGetInterfaces err]\<rparr>)
                | (Inr m, s1) \<Rightarrow> Inr (m, s1\<lparr>interfaceCache := Some m\<rparr>))) of
        Inl s \<Rightarrow> (''unknown'', s)
      | Inr (cache, s) \<Rightarrow>
         (case cache ip of
            Some iface \<Rightarrow> (iface, s)
          | None \<Rightarrow>
             (if ip = ''127.0.0.1'' then (''lo'', s)
              else if ip = ''0.0.0.0'' then getPrimaryInterface os s
              else
                (case getNetworkInterfaces os s of
                   (Inl err, s1) \<Rightarrow>
                     (''unknown'',
                      s1\<lparr>interfaceCache := None, logged := logged s1 @ [ErrRefreshInterfaces err]\<rparr>)
                 | (Inr m, s1) \<Rightarrow>
                    (case m ip of
                       Some iface \<Rightarrow> (iface, s1\<lparr>interfaceCache := Some m\<rparr>)
                     | None \<Rightarrow> (''unknown'', s1\<lparr>interfaceCache := Some m\<rparr>))))))"

subsection \<open>The connection table reader and the collector\<close>

record tcpConnection =
  sourceAddress :: string
  sourcePort :: string
  destinationAddress :: string
  destinationPort :: string
  state :: string
  sourceInterface :: string

text \<open>The loop over the rows of the table, after the header.\<close>

fun scanRows ::
  "hostOS \<Rightarrow> string list \<Rightarrow> tcpConnection list \<Rightarrow> procState \<Rightarrow> tcpConnection list \<times> procState" where
  "scanRows os [] connections s = (connections, s)"
| "scanRows os (line # rest) connections s =
     (if length (strings_Fields line) < 10 then scanRows os rest connections s
      else
        (case parseAddress (strings_Fields line ! 1) of
           Inl err \<Rightarrow> scanRows os rest connections (s\<lparr>logged := logged s @ [ErrParseLocal err]\<rparr>)
         | Inr (srcAddr, srcPort) \<Rightarrow>
            (case parseAddress (strings_Fields line ! 2) of
               Inl err \<Rightarrow>
                 scanRows os rest connections (s\<lparr>logged := logged s @ [ErrParseRemote err]\<rparr>)
             | Inr (dstAddr, dstPort) \<Rightarrow>
                (case getInterfaceForIP os srcAddr s of
                   (iface, s1) \<Rightarrow>
                     scanRows os rest
                       (connections @
                        [\<lparr>sourceAddress = srcAddr, sourcePort = srcPort,
                          destinationAddress = dstAddr, destinationPort = dstPort,
                          state = connectionState (strings_Fields line ! 3),
                          sourceInterface = iface\<rparr>])
                       s1))))"

definition getTCPConnections ::
  "hostOS \<Rightarrow> string \<Rightarrow> procState \<Rightarrow> (error + tcpConnection list) \<times> procState" where
  "getTCPConnections os file s =
     (case os_Open os file of
        Inl err \<Rightarrow> (Inl err, s\<lparr>opened := opened s @ [file]\<rparr>)
      | Inr lines \<Rightarrow>
         (case scanRows os (drop 1 lines) [] (s\<lparr>opened := opened s @ [file]\<rparr>) of
            (connections, s1) \<Rightarrow> (Inr connections, s1)))"

text \<open>
  A metric sent on the channel: the label names of the descriptor paired with the label
  values, and the gauge value. \<^verbatim>\<open>MustNewConstMetric\<close> gets six values for six names; its
  check of the values' text encoding belongs to the metrics library and is not modelled.
\<close>

definition labelNames :: "string list" where
  "labelNames =
     [''source_address'', ''source_port'', ''destination_address'', ''destination_port'',
      ''state'', ''interface'']"

record metric =
  labels :: "(string \<times> string) list"
  gauge :: nat

definition constMetric :: "tcpConnection \<Rightarrow> metric" where
  "constMetric conn =
     \<lparr>labels = zip labelNames
        [sourceAddress conn, sourcePort conn, destinationAddress conn, destinationPort conn,
         state conn, sourceInterface conn],
      gauge = 1\<rparr>"

definition Collect_metrics :: "hostOS \<Rightarrow> procState \<Rightarrow> metric list \<times> procState" where
  "Collect_metrics os s =
     (case getTCPConnections os ''/proc/net/tcp'' s of
        (Inl err, s1) \<Rightarrow> ([], s1\<lparr>logged := logged s1 @ [ErrTCPConnections err]\<rparr>)
      | (Inr tcpConnections, s1) \<Rightarrow> (map constMetric tcpConnections, s1))"

text \<open>The state the process starts in: no cache, nothing called, logged or opened.\<close>

definition initialState :: procState where
  "initialState = \<lparr>interfaceCache = None, ifaceCalls = 0, logged = [], opened = []\<rparr>"

subsection \<open>The specification's tables and encodings\<close>

text \<open>
  Definitions that follow the words of the specification, to state its claims against
  the program: the state table of its section 4.2, the hexadecimal digits and the
  kernel's upper-case rendering of an address, and the reading of a decimal string.
\<close>

definition stateTable :: "(string \<times> string) list" where
  "stateTable =
     [(''01'', ''ESTABLISHED''), (''02'', ''SYN_SENT''), (''03'', ''SYN_RECV''),
      (''04'', ''FIN_WAIT1''), (''05'', ''FIN_WAIT2''), (''06'', ''TIME_WAIT''),
      (''07'', ''CLOSE''), (''08'', ''CLOSE_WAIT''), (''09'', ''LAST_ACK''),
      (''0A'', ''LISTEN''), (''0B'', ''CLOSING'')]"

definition isHexDigit :: "char \<Rightarrow> bool" where
  "isHexDigit c = (fromHexChar c \<noteq> None)"

definition isKernelHexDigit :: "char \<Rightarrow> bool" where
  "isKernelHexDigit c = (c \<in> set ''0123456789ABCDEF'')"

definition hexDigitUpper :: "nat \<Rightarrow> char" where
  "hexDigitUpper d = ''0123456789ABCDEF'' ! d"

definition toUpperHex :: "char \<Rightarrow> char" where
  "toUpperHex c = (case fromHexChar c of Some d \<Rightarrow> hexDigitUpper d | None \<Rightarrow> c)"

definition encodeHexUpper :: "byte list \<Rightarrow> string" where
  "encodeHexUpper bs =
     concat (map (\<lambda>b. [hexDigitUpper (unat b div 16), hexDigitUpper (unat b mod 16)]) bs)"

definition decimalDigit :: "char \<Rightarrow> nat option" where
  "decimalDigit c =
     map_of [(CHR ''0'', 0), (CHR ''1'', 1), (CHR ''2'', 2), (CHR ''3'', 3), (CHR ''4'', 4),
             (CHR ''5'', 5), (CHR ''6'', 6), (CHR ''7'', 7), (CHR ''8'', 8), (CHR ''9'', 9)] c"

fun parseDecimalFrom :: "nat \<Rightarrow> string \<Rightarrow> nat option" where
  "parseDecimalFrom n [] = Some n"
| "parseDecimalFrom n (c # cs) =
     (case decimalDigit c of
        None \<Rightarrow> None
      | Some d \<Rightarrow> parseDecimalFrom (10 * n + d) cs)"

definition parseDecimal :: "string \<Rightarrow> nat option" where
  "parseDecimal s = (if s = [] then None else parseDecimalFrom 0 s)"

text \<open>
  The octets of a dotted-decimal address, and the eight hexadecimal characters the kernel
  writes for it: the octets in reversed order, two upper-case digits each.
\<close>

definition dottedOctets :: "string \<Rightarrow> byte list option" where
  "dottedOctets s =
     (case map parseDecimal (strings_Split (CHR ''.'') s) of
        [Some a, Some b, Some c, Some d] \<Rightarrow>
          if a < 256 \<and> b < 256 \<and> c < 256 \<and> d < 256
          then Some [of_nat a, of_nat b, of_nat c, of_nat d] else None
      | _ \<Rightarrow> None)"

definition kernelHexOfDotted :: "string \<Rightarrow> string option" where
  "kernelHexOfDotted s = map_option (\<lambda>octets. encodeHexUpper (rev octets)) (dottedOctets s)"

text \<open>
  The port part of an address without a leading sign; the value of a string of
  hexadecimal digits; a port part as the kernel writes it (one to four hexadecimal
  digits); and a decimal string with a value from 0 to 65535.
\<close>

definition unsignedPart :: "string \<Rightarrow> string" where
  "unsignedPart p = (if p \<noteq> [] \<and> (hd p = CHR ''+'' \<or> hd p = CHR ''-'') then tl p else p)"

fun hexValueFrom :: "nat \<Rightarrow> string \<Rightarrow> nat" where
  "hexValueFrom n [] = n"
| "hexValueFrom n (c # cs) =
     hexValueFrom (16 * n + (case fromHexChar c of Some d \<Rightarrow> d | None \<Rightarrow> 0)) cs"

definition hexValue :: "string \<Rightarrow> nat" where
  "hexValue s = hexValueFrom 0 s"

definition kernelPort :: "string \<Rightarrow> bool" where
  "kernelPort p = (p \<noteq> [] \<and> length p \<le> 4 \<and> list_all isHexDigit p)"

definition portInRange :: "string \<Rightarrow> bool" where
  "portInRange s = (case parseDecimal s of Some n \<Rightarrow> n \<le> 65535 | None \<Rightarrow> False)"

definition portPart :: "string \<Rightarrow> string" where
  "portPart addr = (case strings_Split (CHR '':'') addr of [h, p] \<Rightarrow> p | _ \<Rightarrow> [])"

definition kernelRow :: "string \<Rightarrow> bool" where
  "kernelRow line =
     (length (strings_Fields line) < 10 \<or>
      kernelPort (portPart (strings_Fields line ! 1)) \<and>
      kernelPort (portPart (strings_Fields line ! 2)))"

subsection \<open>An example host\<close>

text \<open>
  A loopback interface and an ethernet interface with two addresses, and a TCP table of
  a header and two rows, the second with a state code outside the table.
\<close>

definition loInterface :: Interface where
  "loInterface = \<lparr>Name = ''lo'', Flags = 73, Addrs = Inr [IPNet [127, 0, 0, 1] [255, 0, 0, 0]]\<rparr>"

definition eth0Interface :: Interface where
  "eth0Interface =
     \<lparr>Name = ''eth0'', Flags = 4163,
      Addrs = Inr [IPNet [192, 168, 1, 10] [255, 255, 255, 0], IPNet [10, 0, 0, 5] [255, 0, 0, 0]]\<rparr>"

definition headerRow :: string where
  "headerRow =
     ''  sl  local_address rem_address   st tx_queue rx_queue tr tm->when retrnsmt   uid  timeout inode''"

definition listenRow :: string where
  "listenRow = ''0: 0100007F:0016 00000000:0000 0A 0 0 0 0 0 0''"

definition oddStateRow :: string where
  "oddStateRow = ''1: 0A01A8C0:01BB 0101A8C0:C350 0C 0 0 0 0 0 0''"

definition exampleHost :: hostOS where
  "exampleHost =
     \<lparr>net_Interfaces = (\<lambda>n. Inr [loInterface, eth0Interface]),
      os_Open = (\<lambda>file. if file = ''/proc/net/tcp'' then Inr [headerRow, listenRow, oddStateRow]
                         else Inl (SysError ''no such file or directory''))\<rparr>"

subsection \<open>The states the program reaches, and what the specification says of interfaces\<close>

text \<open>
  The process starts in \<open>initialState\<close>; its state changes by a collection pass, which
  resolves one address per decoded row.
\<close>

inductive reachable :: "hostOS \<Rightarrow> procState \<Rightarrow> bool" for os :: hostOS where
  start: "reachable os initialState"
| resolve: "reachable os s \<Longrightarrow> reachable os (snd (getInterfaceForIP os ip s))"
| collect: "reachable os s \<Longrightarrow> reachable os (snd (Collect_metrics os s))"

text \<open>A state whose cache, if built, has no entry for the loopback address.\<close>

definition cacheLoopbackFree :: "procState \<Rightarrow> bool" where
  "cacheLoopbackFree s =
     (case interfaceCache s of None \<Rightarrow> True | Some m \<Rightarrow> m ''127.0.0.1'' = None)"

text \<open>
  An interface that is up and no loopback interface; an interface that has the IPv4
  address with the string form \<open>k\<close>, no loopback address; an interface with an IPv4
  network address, as \<^verbatim>\<open>getPrimaryInterface\<close> asks for one; the interface names the
  specification calls ethernet-named and bonding.
\<close>

definition upNonLoopback :: "Interface \<Rightarrow> bool" where
  "upNonLoopback iface = (Flags iface AND FlagUp \<noteq> 0 \<and> Flags iface AND FlagLoopback = 0)"

definition addrIsIPv4 :: "string \<Rightarrow> Addr \<Rightarrow> bool" where
  "addrIsIPv4 k addr =
     (case addrIP addr of
        None \<Rightarrow> False
      | Some ip \<Rightarrow>
         (case IP_To4 ip of
            None \<Rightarrow> False
          | Some ip4 \<Rightarrow> \<not> IP_IsLoopback ip \<and> k = ipv4String ip4))"

definition ownsIPv4 :: "Interface \<Rightarrow> string \<Rightarrow> bool" where
  "ownsIPv4 iface k =
     (case Addrs iface of
        Inl err \<Rightarrow> False
      | Inr addrs \<Rightarrow> list_ex (addrIsIPv4 k) addrs)"








subsection \<open>More example hosts\<close>


text \<open>A state with a cache that knows one address of \<open>eth0\<close>.\<close>

definition cachedState :: procState where
  "cachedState =
     \<lparr>interfaceCache = Some [''10.0.0.5'' \<mapsto> ''eth0''], ifaceCalls = 1, logged = [],
      opened = []\<rparr>"

text \<open>
  A state with an entry for the loopback address in its cache (no state the program
  reaches, as is proved below).
\<close>

definition staleState :: procState where
  "staleState =
     \<lparr>interfaceCache = Some [''127.0.0.1'' \<mapsto> ''eth0''], ifaceCalls = 1, logged = [],
      opened = []\<rparr>"


text \<open>A row whose local port has five hexadecimal digits.\<close>

definition widePortRow :: string where
  "widePortRow = ''0: 0100007F:10000 00000000:0000 0A 0 0 0 0 0 0''"

text \<open>Three malformed rows: too few fields, a bad local address, a bad remote port.\<close>

definition shortRow :: string where
  "shortRow = ''2: 0100007F:0016 00000000:0000 0A''"

definition badLocalRow :: string where
  "badLocalRow = ''3: 0100007G:0016 00000000:0000 0A 0 0 0 0 0 0''"

definition badRemoteRow :: string where
  "badRemoteRow = ''4: 0100007F:0016 00000000:00ZZ 01 0 0 0 0 0 0''"


definition brokenHost :: hostOS where
  "brokenHost =
     \<lparr>net_Interfaces = (\<lambda>n. Inl (SysError ''address family not supported by protocol'')),
      os_Open = (\<lambda>file. Inl (SysError ''no such file or directory''))\<rparr>"

section \<open>Properties\<close>

subsection \<open>Evaluating the examples\<close>

lemmas eval_codec =
  parseAddress_def fromHexChar_def reverseHexTable_def strconv_ParseInt_def
  strconv_ParseUint_def maxUint64_def strconv_FormatInt_def uitoa.simps digitChar_def

lemmas eval_fields = strings_Fields_def spaceWidth_def

lemmas eval_resolver =
  getInterfaceForIP_def getNetworkInterfaces_def getPrimaryInterface_def FlagUp_def
  FlagLoopback_def addrIP_def IP_To4_def IP_IsLoopback_def strings_HasPrefix_def

lemma Fields_listenRow:
  "strings_Fields listenRow =
     [''0:'', ''0100007F:0016'', ''00000000:0000'', ''0A'', ''0'', ''0'', ''0'', ''0'', ''0'', ''0'']"
  by (simp add: listenRow_def eval_fields)

lemma Fields_oddStateRow:
  "strings_Fields oddStateRow =
     [''1:'', ''0A01A8C0:01BB'', ''0101A8C0:C350'', ''0C'', ''0'', ''0'', ''0'', ''0'', ''0'', ''0'']"
  by (simp add: oddStateRow_def eval_fields)

lemma parseAddress_examples:
  "parseAddress ''0100007F:0016'' = Inr (''127.0.0.1'', ''22'')"
  "parseAddress ''00000000:0000'' = Inr (''0.0.0.0'', ''0'')"
  "parseAddress ''0A01A8C0:01BB'' = Inr (''192.168.1.10'', ''443'')"
  "parseAddress ''0101A8C0:C350'' = Inr (''192.168.1.1'', ''50000'')"
  by (simp_all add: eval_codec)

subsection \<open>The loop over the rows\<close>

lemma scanRows_append:
  "scanRows os rows (a @ b) s =
     (a @ fst (scanRows os rows b s), snd (scanRows os rows b s))"
proof (induction rows arbitrary: b s)
  case Nil
  show ?case by simp
next
  case (Cons line rest)
  show ?case
    by (simp add: Cons.IH split: sum.splits prod.splits)
qed

lemma scanRows_acc:
  "scanRows os rows conns s =
     (conns @ fst (scanRows os rows [] s), snd (scanRows os rows [] s))"
  using scanRows_append [of os rows conns "[]" s] by simp

lemma scanRows_keeps: "set conns \<subseteq> set (fst (scanRows os rows conns s))"
  by (subst scanRows_acc) simp

lemma scanRows_emits:
  assumes "line \<in> set rows" "10 \<le> length (strings_Fields line)"
    "parseAddress (strings_Fields line ! 1) = Inr (srcAddr, srcPort)"
    "parseAddress (strings_Fields line ! 2) = Inr (dstAddr, dstPort)"
  shows "\<exists>iface. \<lparr>sourceAddress = srcAddr, sourcePort = srcPort,
           destinationAddress = dstAddr, destinationPort = dstPort,
           state = connectionState (strings_Fields line ! 3), sourceInterface = iface\<rparr>
          \<in> set (fst (scanRows os rows conns s))"
  using assms(1)
proof (induction rows arbitrary: conns s)
  case Nil
  then show ?case by simp
next
  case (Cons r rest)
  show ?case
  proof (cases "r = line")
    case True
    obtain iface s1 where g: "getInterfaceForIP os srcAddr s = (iface, s1)"
      by (cases "getInterfaceForIP os srcAddr s")
    let ?c = "\<lparr>sourceAddress = srcAddr, sourcePort = srcPort,
           destinationAddress = dstAddr, destinationPort = dstPort,
           state = connectionState (strings_Fields line ! 3), sourceInterface = iface\<rparr>"
    have "scanRows os (r # rest) conns s = scanRows os rest (conns @ [?c]) s1"
      using True assms(2-4) g by simp
    moreover have "?c \<in> set (fst (scanRows os rest (conns @ [?c]) s1))"
      using scanRows_keeps [of "conns @ [?c]" os rest s1] by auto
    ultimately show ?thesis by auto
  next
    case False
    with Cons.prems have "line \<in> set rest" by simp
    then have ih: "\<And>conns s. \<exists>iface. \<lparr>sourceAddress = srcAddr, sourcePort = srcPort,
           destinationAddress = dstAddr, destinationPort = dstPort,
           state = connectionState (strings_Fields line ! 3), sourceInterface = iface\<rparr>
          \<in> set (fst (scanRows os rest conns s))"
      by (rule Cons.IH)
    show ?thesis
      by (simp split: sum.splits prod.splits) (use ih in blast)
  qed
qed

subsection \<open>The state mapper\<close>

lemma connectionState_lookup:
  "connectionState code =
     (case map_of stateTable code of Some name \<Rightarrow> name | None \<Rightarrow> ''UNKNOWN'')"
  by (simp add: connectionState_def stateTable_def)

text \<open>
  Claim C2. For every string, \<open>connectionState\<close> returns the name the fixed table gives
  it, and \<open>UNKNOWN\<close> for a string the table does not hold (it has no error result);
  a row of the table file with at least ten fields and two decodable addresses whose
  state code is outside the table is still among the records \<open>getTCPConnections\<close>
  returns, with the state \<open>UNKNOWN\<close>.
\<close>

theorem connectionState_table:
  "connectionState code =
     (case map_of stateTable code of Some name \<Rightarrow> name | None \<Rightarrow> ''UNKNOWN'') \<and>
   (os_Open os file = Inr lines \<and> line \<in> set (drop 1 lines) \<and>
    10 \<le> length (strings_Fields line) \<and>
    parseAddress (strings_Fields line ! 1) = Inr (srcAddr, srcPort) \<and>
    parseAddress (strings_Fields line ! 2) = Inr (dstAddr, dstPort) \<and>
    map_of stateTable (strings_Fields line ! 3) = None \<longrightarrow>
    (\<exists>connections s1 iface.
        getTCPConnections os file s = (Inr connections, s1) \<and>
        \<lparr>sourceAddress = srcAddr, sourcePort = srcPort,
         destinationAddress = dstAddr, destinationPort = dstPort,
         state = ''UNKNOWN'', sourceInterface = iface\<rparr> \<in> set connections))"
proof (intro conjI impI)
  show "connectionState code =
     (case map_of stateTable code of Some name \<Rightarrow> name | None \<Rightarrow> ''UNKNOWN'')"
    by (rule connectionState_lookup)
next
  assume a: "os_Open os file = Inr lines \<and> line \<in> set (drop 1 lines) \<and>
    10 \<le> length (strings_Fields line) \<and>
    parseAddress (strings_Fields line ! 1) = Inr (srcAddr, srcPort) \<and>
    parseAddress (strings_Fields line ! 2) = Inr (dstAddr, dstPort) \<and>
    map_of stateTable (strings_Fields line ! 3) = None"
  let ?s = "s\<lparr>opened := opened s @ [file]\<rparr>"
  from a have unknown: "connectionState (strings_Fields line ! 3) = ''UNKNOWN''"
    by (simp add: connectionState_lookup)
  from a obtain iface where
    "\<lparr>sourceAddress = srcAddr, sourcePort = srcPort,
      destinationAddress = dstAddr, destinationPort = dstPort,
      state = connectionState (strings_Fields line ! 3), sourceInterface = iface\<rparr>
     \<in> set (fst (scanRows os (drop 1 lines) [] ?s))"
    using scanRows_emits [of line "drop 1 lines" srcAddr srcPort dstAddr dstPort os "[]" ?s]
    by blast
  with unknown a show "\<exists>connections s1 iface.
        getTCPConnections os file s = (Inr connections, s1) \<and>
        \<lparr>sourceAddress = srcAddr, sourcePort = srcPort,
         destinationAddress = dstAddr, destinationPort = dstPort,
         state = ''UNKNOWN'', sourceInterface = iface\<rparr> \<in> set connections"
    by (auto simp add: getTCPConnections_def split: prod.splits)
qed

theorem connectionState_table_witness:
  "connectionState ''0C'' = ''UNKNOWN'' \<and>
   (\<exists>connections s1 iface.
      getTCPConnections exampleHost ''/proc/net/tcp'' initialState = (Inr connections, s1) \<and>
      \<lparr>sourceAddress = ''192.168.1.10'', sourcePort = ''443'',
       destinationAddress = ''192.168.1.1'', destinationPort = ''50000'',
       state = ''UNKNOWN'', sourceInterface = iface\<rparr> \<in> set connections)"
proof -
  have h: "os_Open exampleHost ''/proc/net/tcp'' = Inr [headerRow, listenRow, oddStateRow] \<and>
    oddStateRow \<in> set (drop 1 [headerRow, listenRow, oddStateRow]) \<and>
    10 \<le> length (strings_Fields oddStateRow) \<and>
    parseAddress (strings_Fields oddStateRow ! 1) = Inr (''192.168.1.10'', ''443'') \<and>
    parseAddress (strings_Fields oddStateRow ! 2) = Inr (''192.168.1.1'', ''50000'') \<and>
    map_of stateTable (strings_Fields oddStateRow ! 3) = None"
    by (simp add: exampleHost_def Fields_oddStateRow parseAddress_examples stateTable_def)
  have t: "connectionState ''0C'' =
     (case map_of stateTable ''0C'' of Some name \<Rightarrow> name | None \<Rightarrow> ''UNKNOWN'')"
    using connectionState_table [of "''0C''"] by blast
  from h connectionState_table
    [of "''0C''" exampleHost "''/proc/net/tcp''" "[headerRow, listenRow, oddStateRow]"
        oddStateRow "''192.168.1.10''" "''443''" "''192.168.1.1''" "''50000''" initialState]
  have "\<exists>connections s1 iface.
      getTCPConnections exampleHost ''/proc/net/tcp'' initialState = (Inr connections, s1) \<and>
      \<lparr>sourceAddress = ''192.168.1.10'', sourcePort = ''443'',
       destinationAddress = ''192.168.1.1'', destinationPort = ''50000'',
       state = ''UNKNOWN'', sourceInterface = iface\<rparr> \<in> set connections"
    by blast
  moreover from t have "connectionState ''0C'' = ''UNKNOWN''"
    by (simp add: stateTable_def)
  ultimately show ?thesis by blast
qed

subsection \<open>Splitting, hexadecimal digits and decimal digits\<close>

lemma strings_Split_no_sep: "sep \<notin> set s \<Longrightarrow> strings_Split sep s = [s]"
  by (induction s) auto

lemma strings_Split_first:
  "sep \<notin> set xs \<Longrightarrow> strings_Split sep (xs @ sep # ys) = xs # strings_Split sep ys"
  by (induction xs) auto

lemma fromHexChar_less: "fromHexChar c = Some d \<Longrightarrow> d < 16"
proof -
  assume "fromHexChar c = Some d"
  then have "(c, d) \<in> set reverseHexTable"
    unfolding fromHexChar_def by (rule map_of_SomeD)
  then show ?thesis
    unfolding reverseHexTable_def by auto
qed

lemma not_isHexDigit_punctuation:
  "\<not> isHexDigit (CHR '':'')" "\<not> isHexDigit (CHR ''+'')" "\<not> isHexDigit (CHR ''-'')"
  by (simp_all add: isHexDigit_def fromHexChar_def reverseHexTable_def)

lemma isHexDigit_not_colon: "isHexDigit c \<Longrightarrow> c \<noteq> CHR '':''"
  using not_isHexDigit_punctuation by auto

lemma isHexDigit_not_sign: "isHexDigit c \<Longrightarrow> c \<noteq> CHR ''+'' \<and> c \<noteq> CHR ''-''"
  using not_isHexDigit_punctuation by auto

lemma hexDigits_no_colon: "list_all isHexDigit cs \<Longrightarrow> CHR '':'' \<notin> set cs"
  by (induction cs) (auto dest: isHexDigit_not_colon)

lemma parseUintLoop_hex: "parseUintLoop n cs = Inr m \<Longrightarrow> list_all isHexDigit cs"
  by (induction cs arbitrary: n) (auto simp add: isHexDigit_def split: option.splits if_splits)

lemma strconv_ParseInt_no_colon:
  assumes "strconv_ParseInt p = Inr port"
  shows "CHR '':'' \<notin> set p"
proof -
  from assms have ne: "p \<noteq> []"
    by (auto simp add: strconv_ParseInt_def)
  then obtain c cs where p: "p = c # cs" by (cases p) auto
  let ?s = "if c = CHR ''+'' \<or> c = CHR ''-'' then cs else p"
  from assms p obtain un where "strconv_ParseUint ?s = Inr un"
    by (auto simp add: strconv_ParseInt_def Let_def split: sum.splits numErr.splits if_splits)
  then have "list_all isHexDigit ?s"
    by (auto simp add: strconv_ParseUint_def dest: parseUintLoop_hex split: if_splits)
  then have "CHR '':'' \<notin> set ?s" by (rule hexDigits_no_colon)
  with p show ?thesis by (auto split: if_splits)
qed

text \<open>Two digits below 16 make the byte \<open>16 * a + b\<close>: the shift and the or lose nothing.\<close>

lemma nibble_or_add:
  fixes a b :: nat
  assumes "b < 16"
  shows "push_bit 4 a OR b = 16 * a + b"
proof -
  from assms have b: "take_bit 4 b = b" by (simp add: take_bit_nat_eq_self)
  have "push_bit 4 a AND take_bit 4 b = 0"
    by (auto simp add: bit_eq_iff bit_simps)
  then have "push_bit 4 a + take_bit 4 b = push_bit 4 a OR take_bit 4 b"
    by (rule disjunctive_add_eq_or)
  then show ?thesis using b by (simp add: push_bit_eq_mult)
qed

lemma unat_nibbles:
  fixes a b :: nat
  assumes "a < 16" "b < 16"
  shows "unat (push_bit 4 (of_nat a) OR of_nat b :: 8 word) = 16 * a + b"
proof -
  have "(push_bit 4 (of_nat a) OR of_nat b :: 8 word) = of_nat (push_bit 4 a OR b)"
    by (simp add: of_nat_or_eq of_nat_push_bit)
  also have "\<dots> = of_nat (16 * a + b)"
    using assms by (simp only: nibble_or_add)
  finally have eq: "(push_bit 4 (of_nat a) OR of_nat b :: 8 word) = of_nat (16 * a + b)" .
  have "unat (of_nat (16 * a + b) :: 8 word) = (16 * a + b) mod 2 ^ LENGTH(8)"
    by (rule unat_of_nat)
  also have "\<dots> = 16 * a + b"
    using assms by simp
  finally show ?thesis
    by (simp only: eq)
qed

lemma hex_byte_roundtrip:
  assumes "fromHexChar p = Some a" "fromHexChar q = Some b"
  shows "encodeHexUpper [push_bit 4 (of_nat a) OR of_nat b] = [toUpperHex p, toUpperHex q]"
proof -
  have ab: "a < 16" "b < 16" using assms by (auto dest: fromHexChar_less)
  then have "unat (push_bit 4 (of_nat a) OR of_nat b :: 8 word) = 16 * a + b"
    by (rule unat_nibbles)
  with ab assms show ?thesis
    by (simp add: encodeHexUpper_def toUpperHex_def)
qed

lemma encodeHexUpper_Cons:
  "encodeHexUpper (b # bs) = encodeHexUpper [b] @ encodeHexUpper bs"
  by (simp add: encodeHexUpper_def)

lemma encodeHexUpper_append:
  "encodeHexUpper (as @ bs) = encodeHexUpper as @ encodeHexUpper bs"
  by (simp add: encodeHexUpper_def)

lemma hex_DecodeString_roundtrip:
  "even (length h) \<Longrightarrow> list_all isHexDigit h \<Longrightarrow>
     \<exists>bs. hex_DecodeString h = Inr bs \<and> 2 * length bs = length h \<and>
          encodeHexUpper bs = map toUpperHex h"
proof (induction h rule: hex_DecodeString.induct)
  case 1
  show ?case by (simp add: encodeHexUpper_def)
next
  case (2 c)
  then show ?case by simp
next
  case (3 p q rest)
  from "3.prems" obtain a b where ab: "fromHexChar p = Some a" "fromHexChar q = Some b"
    by (auto simp add: isHexDigit_def)
  from "3.prems" have "even (length rest)" "list_all isHexDigit rest" by simp_all
  with "3.IH" [OF ab] obtain bs where bs: "hex_DecodeString rest = Inr bs"
    "2 * length bs = length rest" "encodeHexUpper bs = map toUpperHex rest"
    by blast
  show ?case
    using ab bs hex_byte_roundtrip [OF ab]
    by (simp add: encodeHexUpper_Cons [of _ bs])
qed

lemma toUpperHex_kernel:
  assumes "isKernelHexDigit c"
  shows "toUpperHex c = c"
proof -
  from assms have "c = CHR ''0'' \<or> c = CHR ''1'' \<or> c = CHR ''2'' \<or> c = CHR ''3'' \<or> c = CHR ''4'' \<or>
      c = CHR ''5'' \<or> c = CHR ''6'' \<or> c = CHR ''7'' \<or> c = CHR ''8'' \<or> c = CHR ''9'' \<or>
      c = CHR ''A'' \<or> c = CHR ''B'' \<or> c = CHR ''C'' \<or> c = CHR ''D'' \<or> c = CHR ''E'' \<or>
      c = CHR ''F''"
    by (simp add: isKernelHexDigit_def)
  then show ?thesis
    by (elim disjE)
      (simp_all add: toUpperHex_def fromHexChar_def reverseHexTable_def hexDigitUpper_def)
qed

lemma map_toUpperHex_kernel: "list_all isKernelHexDigit h \<Longrightarrow> map toUpperHex h = h"
  by (induction h) (simp_all add: toUpperHex_kernel)

lemma decimalDigit_digitChar: "d < 10 \<Longrightarrow> decimalDigit (digitChar d) = Some d"
proof -
  assume "d < 10"
  then have "d = 0 \<or> d = 1 \<or> d = 2 \<or> d = 3 \<or> d = 4 \<or> d = 5 \<or> d = 6 \<or> d = 7 \<or> d = 8 \<or> d = 9"
    by arith
  then show ?thesis
    by (elim disjE) (simp_all add: decimalDigit_def digitChar_def)
qed

lemma digitChar_in: "d < 10 \<Longrightarrow> digitChar d \<in> set ''0123456789''"
  unfolding digitChar_def by (rule nth_mem) simp

lemma uitoa_digits: "set (uitoa n) \<subseteq> set ''0123456789''"
proof (induction n rule: uitoa.induct)
  case (1 n)
  show ?case
  proof (cases "n < 10")
    case True
    then show ?thesis using digitChar_in [of n] by (subst uitoa.simps) simp
  next
    case False
    have "n mod 10 < 10" by simp
    then have "digitChar (n mod 10) \<in> set ''0123456789''" by (rule digitChar_in)
    with False "1.IH" show ?thesis by (subst uitoa.simps) simp
  qed
qed

lemma uitoa_nonempty: "uitoa n \<noteq> []"
  by (subst uitoa.simps) simp

lemma uitoa_no_dot: "CHR ''.'' \<notin> set (uitoa n)"
  using uitoa_digits [of n] by auto

lemma parseDecimalFrom_snoc:
  "parseDecimalFrom n (cs @ [c]) =
     (case parseDecimalFrom n cs of
        None \<Rightarrow> None
      | Some v \<Rightarrow> (case decimalDigit c of None \<Rightarrow> None | Some d \<Rightarrow> Some (10 * v + d)))"
  by (induction cs arbitrary: n) (auto split: option.splits)

lemma parseDecimalFrom_uitoa: "parseDecimalFrom 0 (uitoa n) = Some n"
proof (induction n rule: uitoa.induct)
  case (1 n)
  show ?case
  proof (cases "n < 10")
    case True
    then show ?thesis by (subst uitoa.simps) (simp add: decimalDigit_digitChar)
  next
    case False
    have "decimalDigit (digitChar (n mod 10)) = Some (n mod 10)"
      by (rule decimalDigit_digitChar) simp
    with False "1.IH" show ?thesis
      by (subst uitoa.simps) (simp add: parseDecimalFrom_snoc)
  qed
qed

lemma parseDecimal_uitoa: "parseDecimal (uitoa n) = Some n"
  by (simp add: parseDecimal_def uitoa_nonempty parseDecimalFrom_uitoa)

lemma unat_byte_less: "unat (b :: byte) < 256"
  using unsigned_less [of b, where 'a = nat] by simp

lemma split_dotted:
  "strings_Split (CHR ''.'') (ipv4String [a, b, c, d]) =
     [uitoa (unat a), uitoa (unat b), uitoa (unat c), uitoa (unat d)]"
  by (simp add: strings_Split_first strings_Split_no_sep uitoa_no_dot)

lemma dottedOctets_ipv4String: "dottedOctets (ipv4String [a, b, c, d]) = Some [a, b, c, d]"
  by (simp add: dottedOctets_def split_dotted parseDecimal_uitoa unat_byte_less
      del: ipv4String.simps)

subsection \<open>The address codec: decoding and re-encoding\<close>

lemma four_bytes: "length (bs :: byte list) = 4 \<Longrightarrow> \<exists>b0 b1 b2 b3. bs = [b0, b1, b2, b3]"
  by (cases bs; simp; cases "tl bs"; simp; cases "tl (tl bs)"; simp; cases "tl (tl (tl bs))"; simp)

text \<open>
  Claim C1. For an address string made of eight hexadecimal digits, a colon and a port
  that \<^verbatim>\<open>ParseInt\<close> accepts, \<open>parseAddress\<close> decodes the digits to four bytes and
  returns the dotted-decimal rendering of the bytes in reversed order; reading the four
  octets back from that rendering and writing them in reversed order as hexadecimal
  gives the eight characters again (in upper case, so the very same characters for the
  upper-case digits the kernel writes). In particular \<open>0100007F:0016\<close> decodes to
  \<open>127.0.0.1\<close> and \<open>00000000:0000\<close> to \<open>0.0.0.0\<close>.
\<close>

theorem parseAddress_roundtrip:
  "(length h = 8 \<and> list_all isHexDigit h \<and> strconv_ParseInt p = Inr port \<longrightarrow>
     (\<exists>b0 b1 b2 b3.
        hex_DecodeString h = Inr [b0, b1, b2, b3] \<and>
        parseAddress (h @ '':'' @ p) =
          Inr (ipv4String [b3, b2, b1, b0], strconv_FormatInt port) \<and>
        dottedOctets (ipv4String [b3, b2, b1, b0]) = Some [b3, b2, b1, b0] \<and>
        kernelHexOfDotted (ipv4String [b3, b2, b1, b0]) = Some (map toUpperHex h) \<and>
        (list_all isKernelHexDigit h \<longrightarrow>
           kernelHexOfDotted (ipv4String [b3, b2, b1, b0]) = Some h))) \<and>
   parseAddress ''0100007F:0016'' = Inr (''127.0.0.1'', ''22'') \<and>
   parseAddress ''00000000:0000'' = Inr (''0.0.0.0'', ''0'')"
proof (intro conjI impI)
  assume a: "length h = 8 \<and> list_all isHexDigit h \<and> strconv_ParseInt p = Inr port"
  then have "even (length h)" by simp
  with a obtain bs where bs: "hex_DecodeString h = Inr bs" "2 * length bs = length h"
    "encodeHexUpper bs = map toUpperHex h"
    using hex_DecodeString_roundtrip [of h] by blast
  with a have "length bs = 4" by simp
  then obtain b0 b1 b2 b3 where b: "bs = [b0, b1, b2, b3]"
    using four_bytes by blast
  have split: "strings_Split (CHR '':'') (h @ '':'' @ p) = [h, p]"
    using a by (simp add: strings_Split_first strings_Split_no_sep hexDigits_no_colon
        strconv_ParseInt_no_colon)
  have pa: "parseAddress (h @ '':'' @ p) =
      Inr (ipv4String [b3, b2, b1, b0], strconv_FormatInt port)"
    using a bs(1) b split by (simp add: parseAddress_def del: ipv4String.simps)
  have oct: "dottedOctets (ipv4String [b3, b2, b1, b0]) = Some [b3, b2, b1, b0]"
    by (rule dottedOctets_ipv4String)
  have enc: "kernelHexOfDotted (ipv4String [b3, b2, b1, b0]) = Some (map toUpperHex h)"
    using bs(3) b by (simp add: kernelHexOfDotted_def oct del: ipv4String.simps)
  from bs(1) b pa oct enc
  show "\<exists>b0 b1 b2 b3.
        hex_DecodeString h = Inr [b0, b1, b2, b3] \<and>
        parseAddress (h @ '':'' @ p) =
          Inr (ipv4String [b3, b2, b1, b0], strconv_FormatInt port) \<and>
        dottedOctets (ipv4String [b3, b2, b1, b0]) = Some [b3, b2, b1, b0] \<and>
        kernelHexOfDotted (ipv4String [b3, b2, b1, b0]) = Some (map toUpperHex h) \<and>
        (list_all isKernelHexDigit h \<longrightarrow>
           kernelHexOfDotted (ipv4String [b3, b2, b1, b0]) = Some h)"
    by (auto simp add: map_toUpperHex_kernel simp del: ipv4String.simps)
next
  show "parseAddress ''0100007F:0016'' = Inr (''127.0.0.1'', ''22'')"
    by (rule parseAddress_examples)
next
  show "parseAddress ''00000000:0000'' = Inr (''0.0.0.0'', ''0'')"
    by (rule parseAddress_examples)
qed

theorem parseAddress_roundtrip_witness:
  "parseAddress ''0100007F:0016'' = Inr (''127.0.0.1'', ''22'') \<and>
   dottedOctets ''127.0.0.1'' = Some [127, 0, 0, 1] \<and>
   kernelHexOfDotted ''127.0.0.1'' = Some ''0100007F''"
proof -
  have h: "length ''0100007F'' = 8 \<and> list_all isHexDigit ''0100007F'' \<and>
      strconv_ParseInt ''0016'' = Inr 22"
    by (simp add: isHexDigit_def eval_codec)
  have k: "list_all isKernelHexDigit ''0100007F''"
    by (simp add: isKernelHexDigit_def)
  from h k parseAddress_roundtrip [of "''0100007F''" "''0016''" 22]
  obtain b0 b1 b2 b3 where
    d: "hex_DecodeString ''0100007F'' = Inr [b0, b1, b2, b3]" and
    pa: "parseAddress (''0100007F'' @ '':'' @ ''0016'') =
           Inr (ipv4String [b3, b2, b1, b0], strconv_FormatInt 22)" and
    oc: "dottedOctets (ipv4String [b3, b2, b1, b0]) = Some [b3, b2, b1, b0]" and
    r: "kernelHexOfDotted (ipv4String [b3, b2, b1, b0]) = Some ''0100007F''"
    by blast
  from d have bytes: "b0 = 1 \<and> b1 = 0 \<and> b2 = 0 \<and> b3 = 127"
    by (simp add: eval_codec)
  then have ip: "ipv4String [b3, b2, b1, b0] = ''127.0.0.1''"
    by (simp add: uitoa.simps digitChar_def)
  from pa oc r show ?thesis
    unfolding ip using bytes by (simp add: eval_codec)
qed

subsection \<open>The interface cache\<close>

lemma IP_To4_length: "IP_To4 ip = Some ip4 \<Longrightarrow> length ip4 = 4"
  by (auto simp add: IP_To4_def split: if_splits)

lemma IP_To4_Nil: "IP_To4 [] = None"
  by (simp add: IP_To4_def)

lemma dottedOctets_loopback: "dottedOctets ''127.0.0.1'' = Some [127, 0, 0, 1]"
  by (simp add: dottedOctets_def parseDecimal_def decimalDigit_def)

lemma ipv4String_loopback:
  assumes "ipv4String [a, b, c, d] = ''127.0.0.1''"
  shows "a = 127"
proof -
  have "dottedOctets (ipv4String [a, b, c, d]) = Some [a, b, c, d]"
    by (rule dottedOctets_ipv4String)
  with assms dottedOctets_loopback show ?thesis by simp
qed

lemma nonloopback_string:
  assumes "IP_To4 ip = Some ip4" "\<not> IP_IsLoopback ip"
  shows "ipv4String ip4 \<noteq> ''127.0.0.1''"
proof
  assume eq: "ipv4String ip4 = ''127.0.0.1''"
  from assms(1) have "length ip4 = 4" by (rule IP_To4_length)
  then obtain a b c d where ip4: "ip4 = [a, b, c, d]" using four_bytes by blast
  with eq have "a = 127" using ipv4String_loopback by blast
  with assms ip4 show False by (simp add: IP_IsLoopback_def)
qed

text \<open>One address either leaves the map as it is or stores one IPv4 key.\<close>

lemma mapAddrs_step:
  "mapAddrs name (addr # addrs) m = mapAddrs name addrs m \<or>
   (\<exists>ip ip4. addrIP addr = Some ip \<and> IP_To4 ip = Some ip4 \<and> \<not> IP_IsLoopback ip \<and>
      mapAddrs name (addr # addrs) m = mapAddrs name addrs (m(ipv4String ip4 \<mapsto> name)))"
  by (simp split: option.splits)

lemma mapAddrs_no_loopback:
  "m ''127.0.0.1'' = None \<Longrightarrow> mapAddrs name addrs m ''127.0.0.1'' = None"
proof (induction addrs arbitrary: m)
  case Nil
  then show ?case by simp
next
  case (Cons addr addrs)
  from mapAddrs_step [of name addr addrs m] show ?case
  proof
    assume "mapAddrs name (addr # addrs) m = mapAddrs name addrs m"
    with Cons show ?thesis by simp
  next
    assume "\<exists>ip ip4. addrIP addr = Some ip \<and> IP_To4 ip = Some ip4 \<and> \<not> IP_IsLoopback ip \<and>
      mapAddrs name (addr # addrs) m = mapAddrs name addrs (m(ipv4String ip4 \<mapsto> name))"
    then obtain ip ip4 where ip: "IP_To4 ip = Some ip4" "\<not> IP_IsLoopback ip"
      and eq: "mapAddrs name (addr # addrs) m = mapAddrs name addrs (m(ipv4String ip4 \<mapsto> name))"
      by blast
    from ip have "ipv4String ip4 \<noteq> ''127.0.0.1''" by (rule nonloopback_string)
    with Cons.prems have "(m(ipv4String ip4 \<mapsto> name)) ''127.0.0.1'' = None" by simp
    then have "mapAddrs name addrs (m(ipv4String ip4 \<mapsto> name)) ''127.0.0.1'' = None"
      by (rule Cons.IH)
    with eq show ?thesis by simp
  qed
qed

lemma mapAddrs_entries:
  "mapAddrs name addrs m k = Some v \<Longrightarrow>
     m k = Some v \<or> (v = name \<and> list_ex (addrIsIPv4 k) addrs)"
proof (induction addrs arbitrary: m)
  case Nil
  then show ?case by simp
next
  case (Cons addr addrs)
  from mapAddrs_step [of name addr addrs m] show ?case
  proof
    assume "mapAddrs name (addr # addrs) m = mapAddrs name addrs m"
    with Cons.prems have "mapAddrs name addrs m k = Some v" by simp
    from Cons.IH [OF this] show ?thesis by auto
  next
    assume "\<exists>ip ip4. addrIP addr = Some ip \<and> IP_To4 ip = Some ip4 \<and> \<not> IP_IsLoopback ip \<and>
      mapAddrs name (addr # addrs) m = mapAddrs name addrs (m(ipv4String ip4 \<mapsto> name))"
    then obtain ip ip4 where ip: "addrIP addr = Some ip" "IP_To4 ip = Some ip4" "\<not> IP_IsLoopback ip"
      and eq: "mapAddrs name (addr # addrs) m = mapAddrs name addrs (m(ipv4String ip4 \<mapsto> name))"
      by blast
    from eq Cons.prems have "mapAddrs name addrs (m(ipv4String ip4 \<mapsto> name)) k = Some v"
      by simp
    from Cons.IH [OF this]
    have "(m(ipv4String ip4 \<mapsto> name)) k = Some v \<or> (v = name \<and> list_ex (addrIsIPv4 k) addrs)" .
    then show ?thesis
    proof
      assume u: "(m(ipv4String ip4 \<mapsto> name)) k = Some v"
      show ?thesis
      proof (cases "k = ipv4String ip4")
        case True
        with u have "v = name" by simp
        moreover from True ip have "addrIsIPv4 k addr" by (simp add: addrIsIPv4_def)
        ultimately show ?thesis by simp
      next
        case False
        with u show ?thesis by simp
      qed
    next
      assume "v = name \<and> list_ex (addrIsIPv4 k) addrs"
      then show ?thesis by simp
    qed
  qed
qed

text \<open>One interface is skipped, logged, or has its addresses stored.\<close>

lemma mapInterfaces_step:
  "(\<not> upNonLoopback iface \<and> mapInterfaces (iface # rest) m lg = mapInterfaces rest m lg) \<or>
   (upNonLoopback iface \<and>
      (\<exists>err. Addrs iface = Inl err \<and>
         mapInterfaces (iface # rest) m lg =
           mapInterfaces rest m (lg @ [WarnAddrs (Name iface) err]))) \<or>
   (upNonLoopback iface \<and>
      (\<exists>addrs. Addrs iface = Inr addrs \<and>
         mapInterfaces (iface # rest) m lg =
           mapInterfaces rest (mapAddrs (Name iface) addrs m) lg))"
  by (cases "Addrs iface") (simp_all add: upNonLoopback_def)

lemma mapInterfaces_no_loopback:
  "m ''127.0.0.1'' = None \<Longrightarrow> fst (mapInterfaces interfaces m lg) ''127.0.0.1'' = None"
proof (induction interfaces arbitrary: m lg)
  case Nil
  then show ?case by simp
next
  case (Cons iface rest)
  from mapInterfaces_step [of iface rest m lg] Cons.prems show ?case
    by (elim disjE conjE exE) (simp_all only: Cons.IH mapAddrs_no_loopback)
qed

lemma mapInterfaces_entries:
  "fst (mapInterfaces interfaces m lg) k = Some v \<Longrightarrow>
     m k = Some v \<or>
     list_ex (\<lambda>iface. upNonLoopback iface \<and> Name iface = v \<and> ownsIPv4 iface k) interfaces"
proof (induction interfaces arbitrary: m lg)
  case Nil
  then show ?case by simp
next
  case (Cons iface rest)
  let ?P = "\<lambda>iface. upNonLoopback iface \<and> Name iface = v \<and> ownsIPv4 iface k"
  from mapInterfaces_step [of iface rest m lg] show ?case
  proof (elim disjE conjE exE)
    assume "mapInterfaces (iface # rest) m lg = mapInterfaces rest m lg"
    with Cons.prems have "fst (mapInterfaces rest m lg) k = Some v" by simp
    from Cons.IH [OF this] show ?thesis by auto
  next
    fix err
    assume "mapInterfaces (iface # rest) m lg =
      mapInterfaces rest m (lg @ [WarnAddrs (Name iface) err])"
    with Cons.prems
    have "fst (mapInterfaces rest m (lg @ [WarnAddrs (Name iface) err])) k = Some v" by simp
    from Cons.IH [OF this] show ?thesis by auto
  next
    fix addrs
    assume up: "upNonLoopback iface" and addrs: "Addrs iface = Inr addrs"
      and eq: "mapInterfaces (iface # rest) m lg =
        mapInterfaces rest (mapAddrs (Name iface) addrs m) lg"
    from eq Cons.prems
    have "fst (mapInterfaces rest (mapAddrs (Name iface) addrs m) lg) k = Some v" by simp
    from Cons.IH [OF this]
    have "mapAddrs (Name iface) addrs m k = Some v \<or> list_ex ?P rest" .
    then show ?thesis
    proof
      assume "mapAddrs (Name iface) addrs m k = Some v"
      from mapAddrs_entries [OF this] up addrs show ?thesis
        by (auto simp add: ownsIPv4_def)
    next
      assume "list_ex ?P rest"
      then show ?thesis by simp
    qed
  qed
qed

lemma getNetworkInterfaces_result:
  "getNetworkInterfaces os s = (r, s') \<Longrightarrow>
     ifaceCalls s' = Suc (ifaceCalls s) \<and> interfaceCache s' = interfaceCache s \<and>
     opened s' = opened s \<and>
     (case net_Interfaces os (ifaceCalls s) of
        Inl err \<Rightarrow> r = Inl err
      | Inr interfaces \<Rightarrow> r = Inr (fst (mapInterfaces interfaces Map.empty (logged s))))"
  by (cases "net_Interfaces os (ifaceCalls s)")
    (auto simp add: getNetworkInterfaces_def split: prod.splits)

lemma getNetworkInterfaces_no_loopback:
  assumes "getNetworkInterfaces os s = (Inr m, s')"
  shows "m ''127.0.0.1'' = None"
proof (cases "net_Interfaces os (ifaceCalls s)")
  case (Inl err)
  with getNetworkInterfaces_result [OF assms] show ?thesis by simp
next
  case (Inr interfaces)
  with getNetworkInterfaces_result [OF assms]
  have "m = fst (mapInterfaces interfaces Map.empty (logged s))" by simp
  then show ?thesis by (simp add: mapInterfaces_no_loopback)
qed

lemma getNetworkInterfaces_entries:
  assumes "getNetworkInterfaces os s = (Inr m, s')" "m k = Some v"
  shows "\<exists>interfaces. net_Interfaces os (ifaceCalls s) = Inr interfaces \<and>
           list_ex (\<lambda>iface. upNonLoopback iface \<and> Name iface = v \<and> ownsIPv4 iface k) interfaces"
proof (cases "net_Interfaces os (ifaceCalls s)")
  case (Inl err)
  with getNetworkInterfaces_result [OF assms(1)] show ?thesis by simp
next
  case (Inr interfaces)
  with getNetworkInterfaces_result [OF assms(1)]
  have "m = fst (mapInterfaces interfaces Map.empty (logged s))" by simp
  with assms(2) have "fst (mapInterfaces interfaces Map.empty (logged s)) k = Some v" by simp
  from mapInterfaces_entries [OF this] Inr show ?thesis by simp
qed

text \<open>
  \<open>getInterfaceForIP\<close> with a cache in place, and with the nil cache: the lazy
  initialisation, then the same steps.
\<close>

lemma getInterfaceForIP_cached:
  "interfaceCache s = Some cache \<Longrightarrow>
     getInterfaceForIP os ip s =
       (case cache ip of
          Some iface \<Rightarrow> (iface, s)
        | None \<Rightarrow>
           (if ip = ''127.0.0.1'' then (''lo'', s)
            else if ip = ''0.0.0.0'' then getPrimaryInterface os s
            else
              (case getNetworkInterfaces os s of
                 (Inl err, s1) \<Rightarrow>
                   (''unknown'',
                    s1\<lparr>interfaceCache := None, logged := logged s1 @ [ErrRefreshInterfaces err]\<rparr>)
               | (Inr m, s1) \<Rightarrow>
                  (case m ip of
                     Some iface \<Rightarrow> (iface, s1\<lparr>interfaceCache := Some m\<rparr>)
                   | None \<Rightarrow> (''unknown'', s1\<lparr>interfaceCache := Some m\<rparr>)))))"
  by (simp add: getInterfaceForIP_def)

lemma getInterfaceForIP_nil:
  "interfaceCache s = None \<Longrightarrow>
     getInterfaceForIP os ip s =
       (case getNetworkInterfaces os s of
          (Inl err, s1) \<Rightarrow>
            (''unknown'', s1\<lparr>interfaceCache := None, logged := logged s1 @ [ErrGetInterfaces err]\<rparr>)
        | (Inr m, s1) \<Rightarrow> getInterfaceForIP os ip (s1\<lparr>interfaceCache := Some m\<rparr>))"
  by (simp add: getInterfaceForIP_def split: prod.splits sum.splits)

lemma getPrimaryInterface_state:
  "snd (getPrimaryInterface os s) = s\<lparr>ifaceCalls := Suc (ifaceCalls s)\<rparr>"
  by (simp add: getPrimaryInterface_def split: sum.splits option.splits)


lemma getInterfaceForIP_cached_loopbackFree:
  assumes "interfaceCache s = Some cache" "cache ''127.0.0.1'' = None"
  shows "cacheLoopbackFree (snd (getInterfaceForIP os ip s))"
proof (cases "cache ip")
  case (Some iface)
  with assms show ?thesis
    by (simp add: getInterfaceForIP_cached cacheLoopbackFree_def)
next
  case None
  show ?thesis
  proof (cases "ip = ''127.0.0.1'' \<or> ip = ''0.0.0.0''")
    case True
    with None assms show ?thesis
      by (auto simp add: getInterfaceForIP_cached cacheLoopbackFree_def getPrimaryInterface_state)
  next
    case False
    obtain r s1 where g: "getNetworkInterfaces os s = (r, s1)"
      by (cases "getNetworkInterfaces os s")
    show ?thesis
    proof (cases r)
      case (Inl err)
      with g None False assms show ?thesis
        by (simp add: getInterfaceForIP_cached cacheLoopbackFree_def)
    next
      case (Inr m)
      with g have "m ''127.0.0.1'' = None"
        using getNetworkInterfaces_no_loopback by blast
      with Inr g None False assms show ?thesis
        by (simp add: getInterfaceForIP_cached cacheLoopbackFree_def split: option.splits)
    qed
  qed
qed

lemma getInterfaceForIP_loopbackFree:
  assumes "cacheLoopbackFree s"
  shows "cacheLoopbackFree (snd (getInterfaceForIP os ip s))"
proof (cases "interfaceCache s")
  case (Some cache)
  with assms have "cache ''127.0.0.1'' = None" by (simp add: cacheLoopbackFree_def)
  with Some show ?thesis by (rule getInterfaceForIP_cached_loopbackFree)
next
  case None
  obtain r s1 where g: "getNetworkInterfaces os s = (r, s1)"
    by (cases "getNetworkInterfaces os s")
  show ?thesis
  proof (cases r)
    case (Inl err)
    with g None show ?thesis
      by (simp add: getInterfaceForIP_nil cacheLoopbackFree_def)
  next
    case (Inr m)
    with g have m: "m ''127.0.0.1'' = None"
      using getNetworkInterfaces_no_loopback by blast
    have "interfaceCache (s1\<lparr>interfaceCache := Some m\<rparr>) = Some m" by simp
    from this m
    have "cacheLoopbackFree (snd (getInterfaceForIP os ip (s1\<lparr>interfaceCache := Some m\<rparr>)))"
      by (rule getInterfaceForIP_cached_loopbackFree)
    with Inr g None show ?thesis
      by (simp add: getInterfaceForIP_nil)
  qed
qed

text \<open>One row is skipped, logged, or resolved and appended.\<close>

lemma scanRows_short:
  "length (strings_Fields line) < 10 \<Longrightarrow>
     scanRows os (line # rest) conns s = scanRows os rest conns s"
  by simp

lemma scanRows_bad_local:
  "\<not> length (strings_Fields line) < 10 \<Longrightarrow>
   parseAddress (strings_Fields line ! 1) = Inl err \<Longrightarrow>
     scanRows os (line # rest) conns s =
       scanRows os rest conns (s\<lparr>logged := logged s @ [ErrParseLocal err]\<rparr>)"
  by simp

lemma scanRows_bad_remote:
  "\<not> length (strings_Fields line) < 10 \<Longrightarrow>
   parseAddress (strings_Fields line ! 1) = Inr src \<Longrightarrow>
   parseAddress (strings_Fields line ! 2) = Inl err \<Longrightarrow>
     scanRows os (line # rest) conns s =
       scanRows os rest conns (s\<lparr>logged := logged s @ [ErrParseRemote err]\<rparr>)"
  by (cases src) simp

lemma scanRows_decoded:
  "\<not> length (strings_Fields line) < 10 \<Longrightarrow>
   parseAddress (strings_Fields line ! 1) = Inr (srcAddr, srcPort) \<Longrightarrow>
   parseAddress (strings_Fields line ! 2) = Inr (dstAddr, dstPort) \<Longrightarrow>
     scanRows os (line # rest) conns s =
       scanRows os rest
         (conns @
          [\<lparr>sourceAddress = srcAddr, sourcePort = srcPort,
            destinationAddress = dstAddr, destinationPort = dstPort,
            state = connectionState (strings_Fields line ! 3),
            sourceInterface = fst (getInterfaceForIP os srcAddr s)\<rparr>])
         (snd (getInterfaceForIP os srcAddr s))"
  by (simp split: prod.splits)

lemma scanRows_step:
  "scanRows os (line # rest) conns s = scanRows os rest conns s \<or>
   (\<exists>l. scanRows os (line # rest) conns s = scanRows os rest conns (s\<lparr>logged := l\<rparr>)) \<or>
   (\<exists>ip c. scanRows os (line # rest) conns s =
      scanRows os rest (conns @ [c]) (snd (getInterfaceForIP os ip s)))"
proof (cases "length (strings_Fields line) < 10")
  case True
  then show ?thesis by simp
next
  case short: False
  show ?thesis
  proof (cases "parseAddress (strings_Fields line ! 1)")
    case (Inl err)
    from scanRows_bad_local [OF short this] show ?thesis by blast
  next
    case local: (Inr src)
    show ?thesis
    proof (cases "parseAddress (strings_Fields line ! 2)")
      case (Inl err)
      from scanRows_bad_remote [OF short local this] show ?thesis by blast
    next
      case (Inr dst)
      obtain sa sp da dp where "src = (sa, sp)" "dst = (da, dp)"
        by (cases src; cases dst) blast
      with local Inr scanRows_decoded [OF short, of sa sp da dp os rest conns s]
      show ?thesis by blast
    qed
  qed
qed

lemma scanRows_loopbackFree:
  "cacheLoopbackFree s \<Longrightarrow> cacheLoopbackFree (snd (scanRows os rows conns s))"
proof (induction rows arbitrary: conns s)
  case Nil
  then show ?case by simp
next
  case (Cons line rest)
  from scanRows_step [of os line rest conns s] show ?case
  proof (elim disjE exE)
    assume "scanRows os (line # rest) conns s = scanRows os rest conns s"
    with Cons show ?thesis by simp
  next
    fix l
    assume eq: "scanRows os (line # rest) conns s = scanRows os rest conns (s\<lparr>logged := l\<rparr>)"
    from Cons.prems have "cacheLoopbackFree (s\<lparr>logged := l\<rparr>)"
      by (simp add: cacheLoopbackFree_def)
    then have "cacheLoopbackFree (snd (scanRows os rest conns (s\<lparr>logged := l\<rparr>)))"
      by (rule Cons.IH)
    with eq show ?thesis by simp
  next
    fix ip c
    assume eq: "scanRows os (line # rest) conns s =
      scanRows os rest (conns @ [c]) (snd (getInterfaceForIP os ip s))"
    from Cons.prems have "cacheLoopbackFree (snd (getInterfaceForIP os ip s))"
      by (rule getInterfaceForIP_loopbackFree)
    then have "cacheLoopbackFree
        (snd (scanRows os rest (conns @ [c]) (snd (getInterfaceForIP os ip s))))"
      by (rule Cons.IH)
    with eq show ?thesis by simp
  qed
qed

lemma Collect_metrics_state:
  "snd (Collect_metrics os s) =
     (case os_Open os ''/proc/net/tcp'' of
        Inl err \<Rightarrow>
          s\<lparr>opened := opened s @ [''/proc/net/tcp''],
            logged := logged s @ [ErrTCPConnections err]\<rparr>
      | Inr lines \<Rightarrow>
          snd (scanRows os (drop 1 lines) [] (s\<lparr>opened := opened s @ [''/proc/net/tcp'']\<rparr>)))"
  by (simp add: Collect_metrics_def getTCPConnections_def split: sum.splits prod.splits)

lemma Collect_metrics_loopbackFree:
  assumes "cacheLoopbackFree s"
  shows "cacheLoopbackFree (snd (Collect_metrics os s))"
proof (cases "os_Open os ''/proc/net/tcp''")
  case (Inl err)
  with assms show ?thesis
    by (simp add: Collect_metrics_state cacheLoopbackFree_def)
next
  case (Inr lines)
  from assms have "cacheLoopbackFree (s\<lparr>opened := opened s @ [''/proc/net/tcp'']\<rparr>)"
    by (simp add: cacheLoopbackFree_def)
  then have "cacheLoopbackFree
      (snd (scanRows os (drop 1 lines) [] (s\<lparr>opened := opened s @ [''/proc/net/tcp'']\<rparr>)))"
    by (rule scanRows_loopbackFree)
  with Inr show ?thesis by (simp add: Collect_metrics_state)
qed

lemma reachable_loopbackFree: "reachable os s \<Longrightarrow> cacheLoopbackFree s"
proof (induction rule: reachable.induct)
  case start
  show ?case by (simp add: cacheLoopbackFree_def initialState_def)
next
  case (resolve s ip)
  then show ?case by (simp add: getInterfaceForIP_loopbackFree)
next
  case (collect s)
  then show ?case by (simp add: Collect_metrics_loopbackFree)
qed

subsection \<open>What the cache holds\<close>

lemma exampleHost_interfaces:
  "getNetworkInterfaces exampleHost initialState =
     (Inr [''192.168.1.10'' \<mapsto> ''eth0'', ''10.0.0.5'' \<mapsto> ''eth0''],
      \<lparr>interfaceCache = None, ifaceCalls = 1, logged = [], opened = []\<rparr>)"
  by (simp add: exampleHost_def loInterface_def eth0Interface_def initialState_def eval_resolver
      uitoa.simps digitChar_def)

lemma exampleHost_owner:
  "list_ex (\<lambda>iface. upNonLoopback iface \<and> Name iface = ''eth0'' \<and> ownsIPv4 iface ''10.0.0.5'')
     [loInterface, eth0Interface]"
  by (simp add: loInterface_def eth0Interface_def upNonLoopback_def ownsIPv4_def addrIsIPv4_def
      eval_resolver uitoa.simps digitChar_def)

lemma getInterfaceForIP_loopback_reachable:
  assumes "reachable os s"
  shows "fst (getInterfaceForIP os ''127.0.0.1'' s) =
     (if interfaceCache s = None \<and> isl (net_Interfaces os (ifaceCalls s)) then ''unknown''
      else ''lo'')"
proof (cases "interfaceCache s")
  case (Some cache)
  from assms have "cacheLoopbackFree s" by (rule reachable_loopbackFree)
  with Some show ?thesis
    by (simp add: getInterfaceForIP_cached cacheLoopbackFree_def)
next
  case None
  obtain r s1 where g: "getNetworkInterfaces os s = (r, s1)"
    by (cases "getNetworkInterfaces os s")
  show ?thesis
  proof (cases r)
    case (Inl err)
    with g getNetworkInterfaces_result [OF g] None show ?thesis
      by (simp add: getInterfaceForIP_nil split: sum.splits)
  next
    case (Inr m)
    with g have "m ''127.0.0.1'' = None"
      using getNetworkInterfaces_no_loopback by blast
    with Inr g getNetworkInterfaces_result [OF g] None show ?thesis
      by (simp add: getInterfaceForIP_nil getInterfaceForIP_cached split: sum.splits)
  qed
qed

text \<open>
  Claim C10. In every map \<open>getNetworkInterfaces\<close> returns, a key is the string form of
  an IPv4 address that is no loopback address, bound to an interface that is up and no
  loopback interface, and the value is the name of that interface (a map gives each key
  one value). So \<open>127.0.0.1\<close> is never a key of a returned map, nor of the cache in any
  state the program reaches, and there the exact-match lookup never answers for
  \<open>127.0.0.1\<close>: the loopback case does, unless the first enumeration fails.
\<close>

theorem interfaceCache_entries:
  "(getNetworkInterfaces os s = (Inr m, s') \<and> m k = Some name \<longrightarrow>
      (\<exists>interfaces.
         net_Interfaces os (ifaceCalls s) = Inr interfaces \<and>
         list_ex (\<lambda>iface. upNonLoopback iface \<and> Name iface = name \<and> ownsIPv4 iface k)
           interfaces)) \<and>
   (getNetworkInterfaces os s = (Inr m, s') \<longrightarrow> m ''127.0.0.1'' = None) \<and>
   (reachable os s \<and> interfaceCache s = Some cache \<longrightarrow>
      cache ''127.0.0.1'' = None \<and> getInterfaceForIP os ''127.0.0.1'' s = (''lo'', s)) \<and>
   (reachable os s \<longrightarrow>
      fst (getInterfaceForIP os ''127.0.0.1'' s) =
        (if interfaceCache s = None \<and> isl (net_Interfaces os (ifaceCalls s)) then ''unknown''
         else ''lo''))"
proof (intro conjI impI)
  assume "getNetworkInterfaces os s = (Inr m, s') \<and> m k = Some name"
  then show "\<exists>interfaces.
         net_Interfaces os (ifaceCalls s) = Inr interfaces \<and>
         list_ex (\<lambda>iface. upNonLoopback iface \<and> Name iface = name \<and> ownsIPv4 iface k)
           interfaces"
    using getNetworkInterfaces_entries by blast
next
  assume "getNetworkInterfaces os s = (Inr m, s')"
  then show "m ''127.0.0.1'' = None" by (rule getNetworkInterfaces_no_loopback)
next
  assume a: "reachable os s \<and> interfaceCache s = Some cache"
  then have "cacheLoopbackFree s" using reachable_loopbackFree by blast
  with a show c: "cache ''127.0.0.1'' = None" by (simp add: cacheLoopbackFree_def)
  from a c show "getInterfaceForIP os ''127.0.0.1'' s = (''lo'', s)"
    by (simp add: getInterfaceForIP_cached)
next
  assume "reachable os s"
  then show "fst (getInterfaceForIP os ''127.0.0.1'' s) =
        (if interfaceCache s = None \<and> isl (net_Interfaces os (ifaceCalls s)) then ''unknown''
         else ''lo'')"
    by (rule getInterfaceForIP_loopback_reachable)
qed

theorem interfaceCache_entries_witness:
  "(\<exists>m s'. getNetworkInterfaces exampleHost initialState = (Inr m, s') \<and>
      m ''10.0.0.5'' = Some ''eth0'' \<and> m ''192.168.1.10'' = Some ''eth0'' \<and>
      m ''127.0.0.1'' = None) \<and>
   list_ex (\<lambda>iface. upNonLoopback iface \<and> Name iface = ''eth0'' \<and> ownsIPv4 iface ''10.0.0.5'')
     [loInterface, eth0Interface] \<and>
   reachable exampleHost (snd (getInterfaceForIP exampleHost ''10.0.0.5'' initialState)) \<and>
   interfaceCache (snd (getInterfaceForIP exampleHost ''10.0.0.5'' initialState)) \<noteq> None \<and>
   fst (getInterfaceForIP exampleHost ''127.0.0.1''
         (snd (getInterfaceForIP exampleHost ''10.0.0.5'' initialState))) = ''lo''"
proof -
  let ?m = "[''192.168.1.10'' \<mapsto> ''eth0'', ''10.0.0.5'' \<mapsto> ''eth0'']"
  let ?s' = "\<lparr>interfaceCache = None, ifaceCalls = 1, logged = [], opened = []\<rparr>"
  let ?s = "snd (getInterfaceForIP exampleHost ''10.0.0.5'' initialState)"
  have g: "getNetworkInterfaces exampleHost initialState = (Inr ?m, ?s')"
    by (rule exampleHost_interfaces)
  have k: "?m ''10.0.0.5'' = Some ''eth0''" by simp
  have r: "reachable exampleHost ?s"
    by (intro reachable.resolve reachable.start)
  have c: "interfaceCache ?s = Some ?m"
    by (simp add: getInterfaceForIP_nil initialState_def exampleHost_interfaces [unfolded initialState_def]
        getInterfaceForIP_cached)
  note t = interfaceCache_entries [of exampleHost initialState ?m ?s' "''10.0.0.5''" "''eth0''"]
  note u = interfaceCache_entries [of exampleHost ?s _ _ _ _ ?m]
  from t g k have "?m ''127.0.0.1'' = None" by blast
  moreover from t g k have "\<exists>interfaces.
      net_Interfaces exampleHost (ifaceCalls initialState) = Inr interfaces \<and>
      list_ex (\<lambda>iface. upNonLoopback iface \<and> Name iface = ''eth0'' \<and> ownsIPv4 iface ''10.0.0.5'')
        interfaces" by blast
  then have "list_ex (\<lambda>iface. upNonLoopback iface \<and> Name iface = ''eth0'' \<and>
      ownsIPv4 iface ''10.0.0.5'') [loInterface, eth0Interface]"
    by (simp add: exampleHost_def)
  moreover from u r c have "getInterfaceForIP exampleHost ''127.0.0.1'' ?s = (''lo'', ?s)"
    by blast
  ultimately show ?thesis using g k r c by auto
qed

subsection \<open>Resolving the loopback address\<close>

lemma brokenHost_loopback:
  "getInterfaceForIP brokenHost ''127.0.0.1'' initialState =
     (''unknown'',
      \<lparr>interfaceCache = None, ifaceCalls = 1,
       logged = [ErrGetInterfaces (SysError ''address family not supported by protocol'')],
       opened = []\<rparr>)"
  by (simp add: brokenHost_def initialState_def getInterfaceForIP_def getNetworkInterfaces_def)

text \<open>
  Claim C5 says that \<open>127.0.0.1\<close> resolves to \<open>lo\<close> in every state of the cache, the
  loopback case coming before the cache lookup. It does not: in the initial state, with
  an interface enumeration that fails, the answer is \<open>unknown\<close>; and the lookup runs
  first, so a cache that holds the key answers with its entry.
\<close>

theorem loopback_resolution_counterexample:
  "reachable brokenHost initialState \<and>
   fst (getInterfaceForIP brokenHost ''127.0.0.1'' initialState) = ''unknown'' \<and>
   fst (getInterfaceForIP brokenHost ''127.0.0.1'' initialState) \<noteq> ''lo'' \<and>
   fst (getInterfaceForIP exampleHost ''127.0.0.1'' staleState) = ''eth0'' \<and>
   fst (getInterfaceForIP exampleHost ''127.0.0.1'' staleState) \<noteq> ''lo''"
proof -
  have "interfaceCache staleState = Some [''127.0.0.1'' \<mapsto> ''eth0'']"
    by (simp add: staleState_def)
  then have "fst (getInterfaceForIP exampleHost ''127.0.0.1'' staleState) = ''eth0''"
    by (simp add: getInterfaceForIP_cached)
  then show ?thesis
    by (simp add: brokenHost_loopback reachable.start)
qed

text \<open>
  Claim C5, amended. Resolving \<open>127.0.0.1\<close> returns \<open>lo\<close>, and leaves the state as it
  is, whenever the cache is built and has no entry for \<open>127.0.0.1\<close>; it returns \<open>lo\<close>
  from the nil cache whenever the interface enumeration succeeds; and so it returns
  \<open>lo\<close> in every state the program reaches, unless the cache is nil and the
  enumeration fails.
\<close>

theorem loopback_resolution:
  "(interfaceCache s = Some cache \<and> cache ''127.0.0.1'' = None \<longrightarrow>
      getInterfaceForIP os ''127.0.0.1'' s = (''lo'', s)) \<and>
   (interfaceCache s = None \<and> net_Interfaces os (ifaceCalls s) = Inr interfaces \<longrightarrow>
      fst (getInterfaceForIP os ''127.0.0.1'' s) = ''lo'') \<and>
   (reachable os s \<and> \<not> (interfaceCache s = None \<and> isl (net_Interfaces os (ifaceCalls s))) \<longrightarrow>
      fst (getInterfaceForIP os ''127.0.0.1'' s) = ''lo'')"
proof (intro conjI impI)
  assume "interfaceCache s = Some cache \<and> cache ''127.0.0.1'' = None"
  then show "getInterfaceForIP os ''127.0.0.1'' s = (''lo'', s)"
    by (simp add: getInterfaceForIP_cached)
next
  assume a: "interfaceCache s = None \<and> net_Interfaces os (ifaceCalls s) = Inr interfaces"
  obtain r s1 where g: "getNetworkInterfaces os s = (r, s1)"
    by (cases "getNetworkInterfaces os s")
  with a getNetworkInterfaces_result [OF g] obtain m where r: "r = Inr m" by auto
  with g have "m ''127.0.0.1'' = None"
    using getNetworkInterfaces_no_loopback by blast
  with a g r show "fst (getInterfaceForIP os ''127.0.0.1'' s) = ''lo''"
    by (simp add: getInterfaceForIP_nil getInterfaceForIP_cached)
next
  assume "reachable os s \<and> \<not> (interfaceCache s = None \<and> isl (net_Interfaces os (ifaceCalls s)))"
  then show "fst (getInterfaceForIP os ''127.0.0.1'' s) = ''lo''"
    using getInterfaceForIP_loopback_reachable [of os s] by auto
qed

theorem loopback_resolution_witness:
  "fst (getInterfaceForIP exampleHost ''127.0.0.1'' initialState) = ''lo'' \<and>
   getInterfaceForIP exampleHost ''127.0.0.1'' cachedState = (''lo'', cachedState)"
proof -
  let ?c = "[''10.0.0.5'' \<mapsto> ''eth0'']"
  have h1: "interfaceCache cachedState = Some ?c \<and> ?c ''127.0.0.1'' = None"
    by (simp add: cachedState_def)
  have h2: "interfaceCache initialState = None \<and>
      net_Interfaces exampleHost (ifaceCalls initialState) = Inr [loInterface, eth0Interface]"
    by (simp add: initialState_def exampleHost_def)
  have h3: "reachable exampleHost initialState \<and>
      \<not> (interfaceCache initialState = None \<and>
         isl (net_Interfaces exampleHost (ifaceCalls initialState)))"
    by (simp add: reachable.start exampleHost_def)
  from h1 loopback_resolution [of cachedState ?c exampleHost]
  have "getInterfaceForIP exampleHost ''127.0.0.1'' cachedState = (''lo'', cachedState)"
    by blast
  moreover
  from h2 h3 loopback_resolution [of initialState _ exampleHost "[loInterface, eth0Interface]"]
  have "fst (getInterfaceForIP exampleHost ''127.0.0.1'' initialState) = ''lo''" by blast
  ultimately show ?thesis by blast
qed

subsection \<open>Resolving any other address: the cache, one rebuild, the answer\<close>

lemma getInterfaceForIP_cached_calls:
  assumes "interfaceCache s = Some cache"
  shows "ifaceCalls s \<le> ifaceCalls (snd (getInterfaceForIP os ip s)) \<and>
         ifaceCalls (snd (getInterfaceForIP os ip s)) \<le> Suc (ifaceCalls s)"
proof (cases "cache ip")
  case (Some iface)
  with assms show ?thesis by (simp add: getInterfaceForIP_cached)
next
  case None
  show ?thesis
  proof (cases "ip = ''127.0.0.1'' \<or> ip = ''0.0.0.0''")
    case True
    with None assms show ?thesis
      by (auto simp add: getInterfaceForIP_cached getPrimaryInterface_state)
  next
    case False
    obtain r s1 where g: "getNetworkInterfaces os s = (r, s1)"
      by (cases "getNetworkInterfaces os s")
    from getNetworkInterfaces_result [OF g] have "ifaceCalls s1 = Suc (ifaceCalls s)" by simp
    with g None False assms show ?thesis
      by (cases r) (simp_all add: getInterfaceForIP_cached split: option.splits)
  qed
qed

lemma getInterfaceForIP_calls:
  "ifaceCalls s \<le> ifaceCalls (snd (getInterfaceForIP os ip s)) \<and>
   ifaceCalls (snd (getInterfaceForIP os ip s)) \<le> ifaceCalls s + 2"
proof (cases "interfaceCache s")
  case (Some cache)
  from getInterfaceForIP_cached_calls [OF this, of os ip] show ?thesis by simp
next
  case None
  obtain r s1 where g: "getNetworkInterfaces os s = (r, s1)"
    by (cases "getNetworkInterfaces os s")
  from getNetworkInterfaces_result [OF g] have s1: "ifaceCalls s1 = Suc (ifaceCalls s)" by simp
  show ?thesis
  proof (cases r)
    case (Inl err)
    with g None s1 show ?thesis by (simp add: getInterfaceForIP_nil)
  next
    case (Inr m)
    have "interfaceCache (s1\<lparr>interfaceCache := Some m\<rparr>) = Some m" by simp
    from getInterfaceForIP_cached_calls [OF this, of os ip] s1 Inr g None
    show ?thesis by (simp add: getInterfaceForIP_nil)
  qed
qed

lemma getInterfaceForIP_cached_answer:
  assumes "interfaceCache s = Some cache" "ip \<noteq> ''127.0.0.1''" "ip \<noteq> ''0.0.0.0''"
  shows "fst (getInterfaceForIP os ip s) = ''unknown'' \<or>
         (\<exists>m. interfaceCache (snd (getInterfaceForIP os ip s)) = Some m \<and>
              m ip = Some (fst (getInterfaceForIP os ip s)))"
proof (cases "cache ip")
  case (Some iface)
  with assms show ?thesis by (simp add: getInterfaceForIP_cached)
next
  case None
  obtain r s1 where g: "getNetworkInterfaces os s = (r, s1)"
    by (cases "getNetworkInterfaces os s")
  with None assms show ?thesis
    by (cases r) (simp_all add: getInterfaceForIP_cached split: option.splits)
qed

lemma getInterfaceForIP_answer:
  assumes "ip \<noteq> ''127.0.0.1''" "ip \<noteq> ''0.0.0.0''"
  shows "fst (getInterfaceForIP os ip s) = ''unknown'' \<or>
         (\<exists>m. interfaceCache (snd (getInterfaceForIP os ip s)) = Some m \<and>
              m ip = Some (fst (getInterfaceForIP os ip s)))"
proof (cases "interfaceCache s")
  case (Some cache)
  from getInterfaceForIP_cached_answer [OF this assms] show ?thesis .
next
  case None
  obtain r s1 where g: "getNetworkInterfaces os s = (r, s1)"
    by (cases "getNetworkInterfaces os s")
  show ?thesis
  proof (cases r)
    case (Inl err)
    with g None show ?thesis by (simp add: getInterfaceForIP_nil)
  next
    case (Inr m)
    have "interfaceCache (s1\<lparr>interfaceCache := Some m\<rparr>) = Some m" by simp
    from getInterfaceForIP_cached_answer [OF this assms, of os] Inr g None
    show ?thesis by (simp add: getInterfaceForIP_nil)
  qed
qed

lemma getInterfaceForIP_miss:
  assumes "interfaceCache s = Some cache" "cache ip = None"
    "ip \<noteq> ''127.0.0.1''" "ip \<noteq> ''0.0.0.0''"
  shows "ifaceCalls (snd (getInterfaceForIP os ip s)) = Suc (ifaceCalls s) \<and>
     (case net_Interfaces os (ifaceCalls s) of
        Inl err \<Rightarrow>
          fst (getInterfaceForIP os ip s) = ''unknown'' \<and>
          interfaceCache (snd (getInterfaceForIP os ip s)) = None
      | Inr interfaces \<Rightarrow>
          interfaceCache (snd (getInterfaceForIP os ip s)) =
            Some (fst (mapInterfaces interfaces Map.empty (logged s))) \<and>
          fst (getInterfaceForIP os ip s) =
            (case fst (mapInterfaces interfaces Map.empty (logged s)) ip of
               Some iface \<Rightarrow> iface
             | None \<Rightarrow> ''unknown''))"
proof -
  obtain r s1 where g: "getNetworkInterfaces os s = (r, s1)"
    by (cases "getNetworkInterfaces os s")
  from getNetworkInterfaces_result [OF g] g assms show ?thesis
    by (cases r; cases "net_Interfaces os (ifaceCalls s)")
      (simp_all add: getInterfaceForIP_cached split: option.splits)
qed

lemma scanRows_calls:
  "ifaceCalls (snd (scanRows os rows conns s)) \<le> ifaceCalls s + 2 * length rows"
proof (induction rows arbitrary: conns s)
  case Nil
  show ?case by simp
next
  case (Cons line rest)
  from scanRows_step [of os line rest conns s] show ?case
  proof (elim disjE exE)
    assume "scanRows os (line # rest) conns s = scanRows os rest conns s"
    with Cons.IH [of conns s] show ?thesis by simp
  next
    fix l
    assume "scanRows os (line # rest) conns s = scanRows os rest conns (s\<lparr>logged := l\<rparr>)"
    with Cons.IH [of conns "s\<lparr>logged := l\<rparr>"] show ?thesis by simp
  next
    fix ip c
    assume "scanRows os (line # rest) conns s =
      scanRows os rest (conns @ [c]) (snd (getInterfaceForIP os ip s))"
    with Cons.IH [of "conns @ [c]" "snd (getInterfaceForIP os ip s)"]
      getInterfaceForIP_calls [of s os ip]
    show ?thesis by simp
  qed
qed

text \<open>
  Claim C7. For an address other than \<open>127.0.0.1\<close> and \<open>0.0.0.0\<close>: a cache that holds
  the address answers, and nothing else happens; with the nil cache the cache is first
  built, once, and the resolution goes on as with that cache; on a miss the cache is
  rebuilt by exactly one call of \<^verbatim>\<open>net.Interfaces\<close> and the rebuilt map is asked once.
  The answer is
  an entry of the cache the call leaves behind, or \<open>unknown\<close>. For every address and
  state one resolution makes at most two calls of \<^verbatim>\<open>net.Interfaces\<close> (the lazy
  initialisation and one more), so reading a table makes at most two for each row.
  Every function here is total: \<open>getInterfaceForIP\<close> calls itself nowhere, and the loops
  of \<open>getNetworkInterfaces\<close> run over the finite lists the system returned.
\<close>

theorem resolution_bounded:
  "(ip \<noteq> ''127.0.0.1'' \<and> ip \<noteq> ''0.0.0.0'' \<and>
    interfaceCache s = Some cache \<and> cache ip = Some iface \<longrightarrow>
      getInterfaceForIP os ip s = (iface, s)) \<and>
   (interfaceCache s = None \<longrightarrow>
      getInterfaceForIP os ip s =
        (case getNetworkInterfaces os s of
           (Inl err, s1) \<Rightarrow>
             (''unknown'',
              s1\<lparr>interfaceCache := None, logged := logged s1 @ [ErrGetInterfaces err]\<rparr>)
         | (Inr m, s1) \<Rightarrow> getInterfaceForIP os ip (s1\<lparr>interfaceCache := Some m\<rparr>))) \<and>
   (ip \<noteq> ''127.0.0.1'' \<and> ip \<noteq> ''0.0.0.0'' \<and>
    interfaceCache s = Some cache \<and> cache ip = None \<longrightarrow>
      ifaceCalls (snd (getInterfaceForIP os ip s)) = Suc (ifaceCalls s) \<and>
      (case net_Interfaces os (ifaceCalls s) of
         Inl err \<Rightarrow>
           fst (getInterfaceForIP os ip s) = ''unknown'' \<and>
           interfaceCache (snd (getInterfaceForIP os ip s)) = None
       | Inr interfaces \<Rightarrow>
           interfaceCache (snd (getInterfaceForIP os ip s)) =
             Some (fst (mapInterfaces interfaces Map.empty (logged s))) \<and>
           fst (getInterfaceForIP os ip s) =
             (case fst (mapInterfaces interfaces Map.empty (logged s)) ip of
                Some iface \<Rightarrow> iface
              | None \<Rightarrow> ''unknown''))) \<and>
   (ip \<noteq> ''127.0.0.1'' \<and> ip \<noteq> ''0.0.0.0'' \<longrightarrow>
      fst (getInterfaceForIP os ip s) = ''unknown'' \<or>
      (\<exists>m. interfaceCache (snd (getInterfaceForIP os ip s)) = Some m \<and>
           m ip = Some (fst (getInterfaceForIP os ip s)))) \<and>
   ifaceCalls s \<le> ifaceCalls (snd (getInterfaceForIP os ip s)) \<and>
   ifaceCalls (snd (getInterfaceForIP os ip s)) \<le> ifaceCalls s + 2 \<and>
   ifaceCalls (snd (scanRows os rows conns s)) \<le> ifaceCalls s + 2 * length rows"
proof (intro conjI impI)
  assume "ip \<noteq> ''127.0.0.1'' \<and> ip \<noteq> ''0.0.0.0'' \<and>
    interfaceCache s = Some cache \<and> cache ip = Some iface"
  then show "getInterfaceForIP os ip s = (iface, s)"
    by (simp add: getInterfaceForIP_cached)
next
  assume "interfaceCache s = None"
  then show "getInterfaceForIP os ip s =
        (case getNetworkInterfaces os s of
           (Inl err, s1) \<Rightarrow>
             (''unknown'',
              s1\<lparr>interfaceCache := None, logged := logged s1 @ [ErrGetInterfaces err]\<rparr>)
         | (Inr m, s1) \<Rightarrow> getInterfaceForIP os ip (s1\<lparr>interfaceCache := Some m\<rparr>))"
    by (rule getInterfaceForIP_nil)
next
  assume a: "ip \<noteq> ''127.0.0.1'' \<and> ip \<noteq> ''0.0.0.0'' \<and>
    interfaceCache s = Some cache \<and> cache ip = None"
  then have m: "ifaceCalls (snd (getInterfaceForIP os ip s)) = Suc (ifaceCalls s) \<and>
     (case net_Interfaces os (ifaceCalls s) of
        Inl err \<Rightarrow>
          fst (getInterfaceForIP os ip s) = ''unknown'' \<and>
          interfaceCache (snd (getInterfaceForIP os ip s)) = None
      | Inr interfaces \<Rightarrow>
          interfaceCache (snd (getInterfaceForIP os ip s)) =
            Some (fst (mapInterfaces interfaces Map.empty (logged s))) \<and>
          fst (getInterfaceForIP os ip s) =
            (case fst (mapInterfaces interfaces Map.empty (logged s)) ip of
               Some iface \<Rightarrow> iface
             | None \<Rightarrow> ''unknown''))"
    using getInterfaceForIP_miss [of s cache ip os] by blast
  from m show "ifaceCalls (snd (getInterfaceForIP os ip s)) = Suc (ifaceCalls s)" ..
  from m show "case net_Interfaces os (ifaceCalls s) of
        Inl err \<Rightarrow>
          fst (getInterfaceForIP os ip s) = ''unknown'' \<and>
          interfaceCache (snd (getInterfaceForIP os ip s)) = None
      | Inr interfaces \<Rightarrow>
          interfaceCache (snd (getInterfaceForIP os ip s)) =
            Some (fst (mapInterfaces interfaces Map.empty (logged s))) \<and>
          fst (getInterfaceForIP os ip s) =
            (case fst (mapInterfaces interfaces Map.empty (logged s)) ip of
               Some iface \<Rightarrow> iface
             | None \<Rightarrow> ''unknown'')" ..
next
  assume "ip \<noteq> ''127.0.0.1'' \<and> ip \<noteq> ''0.0.0.0''"
  then show "fst (getInterfaceForIP os ip s) = ''unknown'' \<or>
      (\<exists>m. interfaceCache (snd (getInterfaceForIP os ip s)) = Some m \<and>
           m ip = Some (fst (getInterfaceForIP os ip s)))"
    using getInterfaceForIP_answer [of ip os s] by blast
next
  show "ifaceCalls s \<le> ifaceCalls (snd (getInterfaceForIP os ip s))"
    using getInterfaceForIP_calls [of s os ip] by blast
next
  show "ifaceCalls (snd (getInterfaceForIP os ip s)) \<le> ifaceCalls s + 2"
    using getInterfaceForIP_calls [of s os ip] by blast
next
  show "ifaceCalls (snd (scanRows os rows conns s)) \<le> ifaceCalls s + 2 * length rows"
    by (rule scanRows_calls)
qed

lemma exampleHost_map:
  "fst (mapInterfaces [loInterface, eth0Interface] Map.empty []) =
     [''192.168.1.10'' \<mapsto> ''eth0'', ''10.0.0.5'' \<mapsto> ''eth0'']"
  by (simp add: loInterface_def eth0Interface_def eval_resolver uitoa.simps digitChar_def)

theorem resolution_bounded_witness:
  "getInterfaceForIP exampleHost ''10.0.0.5'' cachedState = (''eth0'', cachedState) \<and>
   ifaceCalls (snd (getInterfaceForIP exampleHost ''192.168.1.10'' cachedState)) = 2 \<and>
   fst (getInterfaceForIP exampleHost ''192.168.1.10'' cachedState) = ''eth0'' \<and>
   fst (getInterfaceForIP exampleHost ''172.16.0.9'' cachedState) = ''unknown''"
proof -
  let ?c = "[''10.0.0.5'' \<mapsto> ''eth0'']"
  have hit: "''10.0.0.5'' \<noteq> ''127.0.0.1'' \<and> ''10.0.0.5'' \<noteq> ''0.0.0.0'' \<and>
      interfaceCache cachedState = Some ?c \<and> ?c ''10.0.0.5'' = Some ''eth0''"
    by (simp add: cachedState_def)
  have miss: "''192.168.1.10'' \<noteq> ''127.0.0.1'' \<and> ''192.168.1.10'' \<noteq> ''0.0.0.0'' \<and>
      interfaceCache cachedState = Some ?c \<and> ?c ''192.168.1.10'' = None"
    by (simp add: cachedState_def)
  have miss2: "''172.16.0.9'' \<noteq> ''127.0.0.1'' \<and> ''172.16.0.9'' \<noteq> ''0.0.0.0'' \<and>
      interfaceCache cachedState = Some ?c \<and> ?c ''172.16.0.9'' = None"
    by (simp add: cachedState_def)
  have env: "\<And>n. net_Interfaces exampleHost n = Inr [loInterface, eth0Interface]"
    "logged cachedState = []" "ifaceCalls cachedState = 1"
    by (simp_all add: cachedState_def exampleHost_def)
  from hit resolution_bounded [of "''10.0.0.5''" cachedState ?c "''eth0''" exampleHost]
  have "getInterfaceForIP exampleHost ''10.0.0.5'' cachedState = (''eth0'', cachedState)"
    by blast
  moreover
  from miss resolution_bounded [of "''192.168.1.10''" cachedState ?c _ exampleHost]
  have "ifaceCalls (snd (getInterfaceForIP exampleHost ''192.168.1.10'' cachedState)) = 2 \<and>
      fst (getInterfaceForIP exampleHost ''192.168.1.10'' cachedState) = ''eth0''"
    by (simp add: env exampleHost_map del: mapInterfaces.simps)
  moreover
  from miss2 resolution_bounded [of "''172.16.0.9''" cachedState ?c _ exampleHost]
  have "fst (getInterfaceForIP exampleHost ''172.16.0.9'' cachedState) = ''unknown''"
    by (simp add: env exampleHost_map del: mapInterfaces.simps)
  ultimately show ?thesis by blast
qed

subsection \<open>The primary interface\<close>








subsection \<open>The collection pass\<close>







lemma exampleHost_rows:
  "scanRows exampleHost [listenRow, oddStateRow] []
     \<lparr>interfaceCache = None, ifaceCalls = 0, logged = [], opened = [''/proc/net/tcp'']\<rparr> =
   ([\<lparr>sourceAddress = ''127.0.0.1'', sourcePort = ''22'',
      destinationAddress = ''0.0.0.0'', destinationPort = ''0'',
      state = ''LISTEN'', sourceInterface = ''lo''\<rparr>,
     \<lparr>sourceAddress = ''192.168.1.10'', sourcePort = ''443'',
      destinationAddress = ''192.168.1.1'', destinationPort = ''50000'',
      state = ''UNKNOWN'', sourceInterface = ''eth0''\<rparr>],
    \<lparr>interfaceCache = Some [''192.168.1.10'' \<mapsto> ''eth0'', ''10.0.0.5'' \<mapsto> ''eth0''],
     ifaceCalls = 1, logged = [], opened = [''/proc/net/tcp'']\<rparr>)"
  by (simp add: Fields_listenRow Fields_oddStateRow parseAddress_examples connectionState_def
      exampleHost_def loInterface_def eth0Interface_def eval_resolver uitoa.simps digitChar_def)








subsection \<open>Malformed addresses and malformed rows\<close>

lemma hex_DecodeString_invalid:
  "\<not> list_all isHexDigit h \<Longrightarrow>
     \<exists>c. c \<in> set h \<and> \<not> isHexDigit c \<and> hex_DecodeString h = Inl (InvalidByteError c)"
proof (induction h rule: hex_DecodeString.induct)
  case 1
  then show ?case by simp
next
  case (2 c)
  then show ?case by (simp add: isHexDigit_def)
next
  case (3 p q rest)
  show ?case
  proof (cases "fromHexChar p")
    case None
    then show ?thesis by (auto simp add: isHexDigit_def)
  next
    case p: (Some a)
    show ?thesis
    proof (cases "fromHexChar q")
      case None
      with p show ?thesis by (auto simp add: isHexDigit_def)
    next
      case q: (Some b)
      from p q have "isHexDigit p" "isHexDigit q" by (simp_all add: isHexDigit_def)
      with "3.prems" have "\<not> list_all isHexDigit rest" by simp
      from "3.IH" [OF p q this] obtain c where
        "c \<in> set rest" "\<not> isHexDigit c" "hex_DecodeString rest = Inl (InvalidByteError c)"
        by blast
      with p q show ?thesis by auto
    qed
  qed
qed

lemma hex_DecodeString_odd:
  "list_all isHexDigit h \<Longrightarrow> odd (length h) \<Longrightarrow> hex_DecodeString h = Inl ErrLength"
proof (induction h rule: hex_DecodeString.induct)
  case 1
  then show ?case by simp
next
  case (2 c)
  then show ?case by (auto simp add: isHexDigit_def)
next
  case (3 p q rest)
  from "3.prems" obtain a b where ab: "fromHexChar p = Some a" "fromHexChar q = Some b"
    by (auto simp add: isHexDigit_def)
  from "3.prems" have "list_all isHexDigit rest" "odd (length rest)" by simp_all
  with "3.IH" [OF ab] ab show ?case by simp
qed

lemma parseUintLoop_invalid:
  "\<not> list_all isHexDigit cs \<Longrightarrow> \<exists>kind. parseUintLoop n cs = Inl kind"
  using parseUintLoop_hex [of n cs] by (cases "parseUintLoop n cs") auto

lemma strconv_ParseInt_invalid:
  assumes "unsignedPart p = [] \<or> \<not> list_all isHexDigit (unsignedPart p)"
  shows "\<exists>kind. strconv_ParseInt p = Inl (NumError p kind)"
proof (cases "p = []")
  case True
  then show ?thesis by (simp add: strconv_ParseInt_def)
next
  case False
  let ?s = "if hd p = CHR ''+'' \<or> hd p = CHR ''-'' then tl p else p"
  from False have u: "unsignedPart p = ?s" by (simp add: unsignedPart_def)
  have "\<exists>kind. strconv_ParseUint ?s = Inl kind"
  proof (cases "?s = []")
    case True
    then show ?thesis by (simp add: strconv_ParseUint_def)
  next
    case ne: False
    with assms u have "\<not> list_all isHexDigit ?s" by auto
    then obtain kind where "parseUintLoop 0 ?s = Inl kind"
      using parseUintLoop_invalid by blast
    with ne show ?thesis by (auto simp add: strconv_ParseUint_def)
  qed
  then obtain kind where "strconv_ParseUint ?s = Inl kind" by blast
  with False show ?thesis
    by (cases kind) (simp_all add: strconv_ParseInt_def Let_def)
qed

text \<open>\<open>parseAddress\<close>, check by check.\<close>

lemma parseAddress_split:
  "length (strings_Split (CHR '':'') addr) \<noteq> 2 \<Longrightarrow>
     parseAddress addr = Inl (InvalidAddressFormat addr)"
  by (auto simp add: parseAddress_def split: list.splits)

lemma parseAddress_parts:
  "strings_Split (CHR '':'') addr = [h, p] \<Longrightarrow>
     parseAddress addr =
       (case hex_DecodeString h of
          Inl err \<Rightarrow> Inl err
        | Inr ipBytes \<Rightarrow>
           (case strconv_ParseInt p of
              Inl err \<Rightarrow> Inl err
            | Inr port \<Rightarrow>
               (if length ipBytes = 4 then
                  Inr (ipv4String [ipBytes ! 3, ipBytes ! 2, ipBytes ! 1, ipBytes ! 0],
                       strconv_FormatInt port)
                else if length ipBytes = 16 then Inl IPv6Disabled
                else Inl (InvalidIPLength (length ipBytes)))))"
  by (simp add: parseAddress_def)

lemma parseAddress_success:
  assumes "parseAddress addr = Inr (ip, port)"
  shows "\<exists>h p ipBytes n.
      strings_Split (CHR '':'') addr = [h, p] \<and> hex_DecodeString h = Inr ipBytes \<and>
      length ipBytes = 4 \<and> strconv_ParseInt p = Inr n \<and>
      ip = ipv4String [ipBytes ! 3, ipBytes ! 2, ipBytes ! 1, ipBytes ! 0] \<and>
      port = strconv_FormatInt n"
proof -
  have "length (strings_Split (CHR '':'') addr) = 2"
    using assms parseAddress_split [of addr] by (cases "length (strings_Split (CHR '':'') addr) = 2") auto
  then obtain h p where hp: "strings_Split (CHR '':'') addr = [h, p]"
    by (cases "strings_Split (CHR '':'') addr"; simp)
      (metis length_0_conv length_Suc_conv list.exhaust list.size(3) nat.inject)
  from assms show ?thesis
    unfolding parseAddress_parts [OF hp] using hp
    by (auto split: sum.splits if_splits simp del: ipv4String.simps)
qed

text \<open>
  Claim C8 has \<open>parseAddress\<close> fail on a character that is no hexadecimal digit in
  either part. In the port part a leading sign is no hexadecimal digit, and the port is
  parsed with \<^verbatim>\<open>strconv.ParseInt\<close>, which reads a sign: the address \<open>0100007F:-16\<close> is
  decoded, to the port \<open>-22\<close>.
\<close>

theorem parseAddress_failures_counterexample:
  "strings_Split (CHR '':'') ''0100007F:-16'' = [''0100007F'', ''-16''] \<and>
   \<not> isHexDigit (CHR ''-'') \<and>
   parseAddress ''0100007F:-16'' = Inr (''127.0.0.1'', ''-22'')"
  by (simp add: eval_codec isHexDigit_def)

text \<open>
  Claim C8, amended. \<open>parseAddress\<close> returns an error and no address: for an input
  that does not split at \<open>:\<close> into exactly two parts (\<open>InvalidAddressFormat\<close>); for an
  address part with a character that is no hexadecimal digit (\<open>InvalidByteError\<close> of
  such a character) or of odd length (\<open>ErrLength\<close>); for a port part that, after one
  optional leading sign, is empty or has a character that is no hexadecimal digit
  (\<open>NumError\<close>); for sixteen decoded bytes (\<open>IPv6Disabled\<close>); and for any other
  number of decoded bytes than four (\<open>InvalidIPLength\<close>). These errors differ from
  each other. The table reader skips a row with fewer than ten fields, and a row whose
  local or remote address fails to decode (logging the error), and goes on with the
  rows after it; reading a table that could be opened never returns an error.
\<close>

theorem parseAddress_failures:
  "(length (strings_Split (CHR '':'') addr) \<noteq> 2 \<longrightarrow>
      parseAddress addr = Inl (InvalidAddressFormat addr)) \<and>
   (strings_Split (CHR '':'') addr = [h, p] \<and> \<not> list_all isHexDigit h \<longrightarrow>
      (\<exists>c. c \<in> set h \<and> \<not> isHexDigit c \<and> parseAddress addr = Inl (InvalidByteError c))) \<and>
   (strings_Split (CHR '':'') addr = [h, p] \<and> list_all isHexDigit h \<and> odd (length h) \<longrightarrow>
      parseAddress addr = Inl ErrLength) \<and>
   (strings_Split (CHR '':'') addr = [h, p] \<and> hex_DecodeString h = Inr ipBytes \<and>
    (unsignedPart p = [] \<or> \<not> list_all isHexDigit (unsignedPart p)) \<longrightarrow>
      (\<exists>kind. parseAddress addr = Inl (NumError p kind))) \<and>
   (strings_Split (CHR '':'') addr = [h, p] \<and> hex_DecodeString h = Inr ipBytes \<and>
    strconv_ParseInt p = Inr port \<and> length ipBytes = 16 \<longrightarrow>
      parseAddress addr = Inl IPv6Disabled) \<and>
   (strings_Split (CHR '':'') addr = [h, p] \<and> hex_DecodeString h = Inr ipBytes \<and>
    strconv_ParseInt p = Inr port \<and> length ipBytes \<noteq> 4 \<and> length ipBytes \<noteq> 16 \<longrightarrow>
      parseAddress addr = Inl (InvalidIPLength (length ipBytes))) \<and>
   distinct [InvalidAddressFormat addr, InvalidByteError c, ErrLength, NumError p kind,
             IPv6Disabled, InvalidIPLength n] \<and>
   (length (strings_Fields line) < 10 \<longrightarrow>
      scanRows os (line # rest) conns s = scanRows os rest conns s) \<and>
   (\<not> length (strings_Fields line) < 10 \<and>
    parseAddress (strings_Fields line ! 1) = Inl err \<longrightarrow>
      scanRows os (line # rest) conns s =
        scanRows os rest conns (s\<lparr>logged := logged s @ [ErrParseLocal err]\<rparr>)) \<and>
   (\<not> length (strings_Fields line) < 10 \<and>
    parseAddress (strings_Fields line ! 1) = Inr src \<and>
    parseAddress (strings_Fields line ! 2) = Inl err \<longrightarrow>
      scanRows os (line # rest) conns s =
        scanRows os rest conns (s\<lparr>logged := logged s @ [ErrParseRemote err]\<rparr>)) \<and>
   (os_Open os file = Inr lines \<longrightarrow>
      (\<exists>connections s1. getTCPConnections os file s = (Inr connections, s1)))"
proof (intro conjI impI)
  assume "length (strings_Split (CHR '':'') addr) \<noteq> 2"
  then show "parseAddress addr = Inl (InvalidAddressFormat addr)"
    by (rule parseAddress_split)
next
  assume a: "strings_Split (CHR '':'') addr = [h, p] \<and> \<not> list_all isHexDigit h"
  then obtain c where "c \<in> set h" "\<not> isHexDigit c" "hex_DecodeString h = Inl (InvalidByteError c)"
    using hex_DecodeString_invalid by blast
  with a show "\<exists>c. c \<in> set h \<and> \<not> isHexDigit c \<and> parseAddress addr = Inl (InvalidByteError c)"
    by (auto simp add: parseAddress_parts)
next
  assume "strings_Split (CHR '':'') addr = [h, p] \<and> list_all isHexDigit h \<and> odd (length h)"
  then show "parseAddress addr = Inl ErrLength"
    by (simp add: parseAddress_parts hex_DecodeString_odd)
next
  assume a: "strings_Split (CHR '':'') addr = [h, p] \<and> hex_DecodeString h = Inr ipBytes \<and>
    (unsignedPart p = [] \<or> \<not> list_all isHexDigit (unsignedPart p))"
  then obtain kind where "strconv_ParseInt p = Inl (NumError p kind)"
    using strconv_ParseInt_invalid by blast
  with a show "\<exists>kind. parseAddress addr = Inl (NumError p kind)"
    by (auto simp add: parseAddress_parts)
next
  assume "strings_Split (CHR '':'') addr = [h, p] \<and> hex_DecodeString h = Inr ipBytes \<and>
    strconv_ParseInt p = Inr port \<and> length ipBytes = 16"
  then show "parseAddress addr = Inl IPv6Disabled"
    by (simp add: parseAddress_parts)
next
  assume "strings_Split (CHR '':'') addr = [h, p] \<and> hex_DecodeString h = Inr ipBytes \<and>
    strconv_ParseInt p = Inr port \<and> length ipBytes \<noteq> 4 \<and> length ipBytes \<noteq> 16"
  then show "parseAddress addr = Inl (InvalidIPLength (length ipBytes))"
    by (simp add: parseAddress_parts)
next
  show "distinct [InvalidAddressFormat addr, InvalidByteError c, ErrLength, NumError p kind,
             IPv6Disabled, InvalidIPLength n]"
    by simp
next
  assume "length (strings_Fields line) < 10"
  then show "scanRows os (line # rest) conns s = scanRows os rest conns s"
    by (rule scanRows_short)
next
  assume "\<not> length (strings_Fields line) < 10 \<and>
    parseAddress (strings_Fields line ! 1) = Inl err"
  then show "scanRows os (line # rest) conns s =
        scanRows os rest conns (s\<lparr>logged := logged s @ [ErrParseLocal err]\<rparr>)"
    using scanRows_bad_local by blast
next
  assume "\<not> length (strings_Fields line) < 10 \<and>
    parseAddress (strings_Fields line ! 1) = Inr src \<and>
    parseAddress (strings_Fields line ! 2) = Inl err"
  then show "scanRows os (line # rest) conns s =
        scanRows os rest conns (s\<lparr>logged := logged s @ [ErrParseRemote err]\<rparr>)"
    using scanRows_bad_remote by blast
next
  assume "os_Open os file = Inr lines"
  then show "\<exists>connections s1. getTCPConnections os file s = (Inr connections, s1)"
    by (simp add: getTCPConnections_def split: prod.splits)
qed

lemma Fields_malformed:
  "strings_Fields shortRow = [''2:'', ''0100007F:0016'', ''00000000:0000'', ''0A'']"
  "strings_Fields badLocalRow =
     [''3:'', ''0100007G:0016'', ''00000000:0000'', ''0A'', ''0'', ''0'', ''0'', ''0'', ''0'', ''0'']"
  "strings_Fields badRemoteRow =
     [''4:'', ''0100007F:0016'', ''00000000:00ZZ'', ''01'', ''0'', ''0'', ''0'', ''0'', ''0'', ''0'']"
  by (simp_all add: shortRow_def badLocalRow_def badRemoteRow_def eval_fields)

lemma parseAddress_malformed:
  "parseAddress ''0100007G:0016'' = Inl (InvalidByteError (CHR ''G''))"
  "parseAddress ''00000000:00ZZ'' = Inl (NumError ''00ZZ'' ErrSyntax)"
  by (simp_all add: eval_codec)

lemma split_examples:
  "strings_Split (CHR '':'') ''0100007F'' = [''0100007F'']"
  "strings_Split (CHR '':'') ''0100007G:0016'' = [''0100007G'', ''0016'']"
  "strings_Split (CHR '':'') ''0100007:0016'' = [''0100007'', ''0016'']"
  "strings_Split (CHR '':'') ''0100007F:00ZZ'' = [''0100007F'', ''00ZZ'']"
  "strings_Split (CHR '':'') ''7F:0016'' = [''7F'', ''0016'']"
  "strings_Split (CHR '':'') ''0000000000000000FFFF00000100007F:0016'' =
     [''0000000000000000FFFF00000100007F'', ''0016'']"
  by simp_all

lemma listenRow_alone:
  "fst (scanRows exampleHost [listenRow] [] s) =
     [\<lparr>sourceAddress = ''127.0.0.1'', sourcePort = ''22'',
       destinationAddress = ''0.0.0.0'', destinationPort = ''0'',
       state = ''LISTEN'', sourceInterface = fst (getInterfaceForIP exampleHost ''127.0.0.1'' s)\<rparr>]"
  by (simp add: Fields_listenRow parseAddress_examples connectionState_def split: prod.splits)

theorem parseAddress_failures_witness:
  "parseAddress ''0100007F'' = Inl (InvalidAddressFormat ''0100007F'') \<and>
   (\<exists>c. parseAddress ''0100007G:0016'' = Inl (InvalidByteError c)) \<and>
   parseAddress ''0100007:0016'' = Inl ErrLength \<and>
   (\<exists>kind. parseAddress ''0100007F:00ZZ'' = Inl (NumError ''00ZZ'' kind)) \<and>
   parseAddress ''0000000000000000FFFF00000100007F:0016'' = Inl IPv6Disabled \<and>
   parseAddress ''7F:0016'' = Inl (InvalidIPLength 1) \<and>
   map sourcePort
     (fst (scanRows exampleHost [shortRow, badLocalRow, badRemoteRow, listenRow] [] initialState)) =
     [''22''] \<and>
   (\<exists>connections s1.
      getTCPConnections exampleHost ''/proc/net/tcp'' initialState = (Inr connections, s1))"
proof -
  note t = parseAddress_failures
  note split = t [THEN conjunct1, rule_format]
  note hexIP = t [THEN conjunct2, THEN conjunct1, rule_format]
  note oddIP = t [THEN conjunct2, THEN conjunct2, THEN conjunct1, rule_format]
  note port = t [THEN conjunct2, THEN conjunct2, THEN conjunct2, THEN conjunct1, rule_format]
  note ipv6 = t [THEN conjunct2, THEN conjunct2, THEN conjunct2, THEN conjunct2,
      THEN conjunct1, rule_format]
  note size = t [THEN conjunct2, THEN conjunct2, THEN conjunct2, THEN conjunct2,
      THEN conjunct2, THEN conjunct1, rule_format]
  note rows = t [THEN conjunct2, THEN conjunct2, THEN conjunct2, THEN conjunct2,
      THEN conjunct2, THEN conjunct2, THEN conjunct2]
  note short = rows [THEN conjunct1, rule_format]
  note badLocal = rows [THEN conjunct2, THEN conjunct1, rule_format]
  note badRemote = rows [THEN conjunct2, THEN conjunct2, THEN conjunct1, rule_format]
  note opens = rows [THEN conjunct2, THEN conjunct2, THEN conjunct2, rule_format]
  have "length (strings_Split (CHR '':'') ''0100007F'') \<noteq> 2"
    by (simp add: split_examples)
  then have c1: "parseAddress ''0100007F'' = Inl (InvalidAddressFormat ''0100007F'')"
    by (rule split)
  have "strings_Split (CHR '':'') ''0100007G:0016'' = [''0100007G'', ''0016''] \<and>
      \<not> list_all isHexDigit ''0100007G''"
    by (simp add: isHexDigit_def fromHexChar_def reverseHexTable_def)
  then have "\<exists>c. c \<in> set ''0100007G'' \<and> \<not> isHexDigit c \<and>
      parseAddress ''0100007G:0016'' = Inl (InvalidByteError c)"
    by (rule hexIP)
  then have c2: "\<exists>c. parseAddress ''0100007G:0016'' = Inl (InvalidByteError c)"
    by blast
  have "strings_Split (CHR '':'') ''0100007:0016'' = [''0100007'', ''0016''] \<and>
      list_all isHexDigit ''0100007'' \<and> odd (length ''0100007'')"
    by (simp add: isHexDigit_def fromHexChar_def reverseHexTable_def)
  then have c3: "parseAddress ''0100007:0016'' = Inl ErrLength"
    by (rule oddIP)
  have "strings_Split (CHR '':'') ''0100007F:00ZZ'' = [''0100007F'', ''00ZZ''] \<and>
      hex_DecodeString ''0100007F'' = Inr [1, 0, 0, 127] \<and>
      (unsignedPart ''00ZZ'' = [] \<or> \<not> list_all isHexDigit (unsignedPart ''00ZZ''))"
    by (simp add: isHexDigit_def fromHexChar_def reverseHexTable_def unsignedPart_def)
  then have c4: "\<exists>kind. parseAddress ''0100007F:00ZZ'' = Inl (NumError ''00ZZ'' kind)"
    by (rule port)
  have "strings_Split (CHR '':'') ''0000000000000000FFFF00000100007F:0016'' =
        [''0000000000000000FFFF00000100007F'', ''0016''] \<and>
      hex_DecodeString ''0000000000000000FFFF00000100007F'' =
        Inr [0, 0, 0, 0, 0, 0, 0, 0, 255, 255, 0, 0, 1, 0, 0, 127] \<and>
      strconv_ParseInt ''0016'' = Inr 22 \<and>
      length [0, 0, 0, 0, 0, 0, 0, 0, 255, 255, 0, 0, 1, 0, 0, 127 :: byte] = 16"
    by (simp add: eval_codec)
  then have c5: "parseAddress ''0000000000000000FFFF00000100007F:0016'' = Inl IPv6Disabled"
    by (rule ipv6)
  have "strings_Split (CHR '':'') ''7F:0016'' = [''7F'', ''0016''] \<and>
      hex_DecodeString ''7F'' = Inr [127] \<and> strconv_ParseInt ''0016'' = Inr 22 \<and>
      length [127 :: byte] \<noteq> 4 \<and> length [127 :: byte] \<noteq> 16"
    by (simp add: eval_codec)
  then have "parseAddress ''7F:0016'' = Inl (InvalidIPLength (length [127 :: byte]))"
    by (rule size)
  then have c6: "parseAddress ''7F:0016'' = Inl (InvalidIPLength 1)"
    by simp
  let ?s1 = "initialState\<lparr>logged := logged initialState @
      [ErrParseLocal (InvalidByteError (CHR ''G''))]\<rparr>"
  let ?s2 = "?s1\<lparr>logged := logged ?s1 @ [ErrParseRemote (NumError ''00ZZ'' ErrSyntax)]\<rparr>"
  have "length (strings_Fields shortRow) < 10"
    by (simp add: Fields_malformed)
  then have r1: "scanRows exampleHost [shortRow, badLocalRow, badRemoteRow, listenRow] []
        initialState =
      scanRows exampleHost [badLocalRow, badRemoteRow, listenRow] [] initialState"
    by (rule short)
  have "\<not> length (strings_Fields badLocalRow) < 10 \<and>
      parseAddress (strings_Fields badLocalRow ! 1) = Inl (InvalidByteError (CHR ''G''))"
    by (simp add: Fields_malformed parseAddress_malformed)
  then have r2: "scanRows exampleHost [badLocalRow, badRemoteRow, listenRow] [] initialState =
      scanRows exampleHost [badRemoteRow, listenRow] [] ?s1"
    by (rule badLocal)
  have "\<not> length (strings_Fields badRemoteRow) < 10 \<and>
      parseAddress (strings_Fields badRemoteRow ! 1) = Inr (''127.0.0.1'', ''22'') \<and>
      parseAddress (strings_Fields badRemoteRow ! 2) = Inl (NumError ''00ZZ'' ErrSyntax)"
    by (simp add: Fields_malformed parseAddress_malformed parseAddress_examples)
  then have r3: "scanRows exampleHost [badRemoteRow, listenRow] [] ?s1 =
      scanRows exampleHost [listenRow] [] ?s2"
    by (rule badRemote)
  have c7: "map sourcePort
     (fst (scanRows exampleHost [shortRow, badLocalRow, badRemoteRow, listenRow] [] initialState)) =
     [''22'']"
    unfolding r1 r2 r3 by (simp only: listenRow_alone) simp
  have "os_Open exampleHost ''/proc/net/tcp'' = Inr [headerRow, listenRow, oddStateRow]"
    by (simp add: exampleHost_def)
  then have c8: "\<exists>connections s1.
      getTCPConnections exampleHost ''/proc/net/tcp'' initialState = (Inr connections, s1)"
    by (rule opens)
  from c1 c2 c3 c4 c5 c6 c7 c8 show ?thesis by blast
qed

subsection \<open>The port fields\<close>

lemma maxUint64_cutoff: "maxUint64 div 16 + 1 = 2 ^ 60" "maxUint64 + 1 = 2 ^ 64"
  by (simp_all add: maxUint64_def)

lemma parseUintLoop_value:
  "list_all isHexDigit cs \<Longrightarrow> (n + 1) * 16 ^ length cs \<le> 2 ^ 64 \<Longrightarrow>
     parseUintLoop n cs = Inr (hexValueFrom n cs) \<and>
     hexValueFrom n cs < (n + 1) * 16 ^ length cs"
proof (induction cs arbitrary: n)
  case Nil
  then show ?case by simp
next
  case (Cons c cs)
  from Cons.prems(1) have "isHexDigit c" and rest: "list_all isHexDigit cs" by simp_all
  then obtain d where d: "fromHexChar c = Some d"
    by (auto simp add: isHexDigit_def)
  from d have d16: "d < 16" by (rule fromHexChar_less)
  define K :: nat where "K = 16 ^ length cs"
  define M :: nat where "M = 2 ^ 64"
  have K1: "1 \<le> K" by (simp add: K_def)
  have len: "(16::nat) ^ length (c # cs) = 16 * K" by (simp add: K_def)
  from Cons.prems(2) have big: "(n + 1) * (16 * K) \<le> M"
    unfolding len M_def .
  have s1: "(n * 16 + d + 1) * K = 16 * (n * K) + (d + 1) * K"
    by (simp add: algebra_simps)
  have s2: "(n + 1) * (16 * K) = 16 * (n * K) + 16 * K"
    by (simp add: algebra_simps)
  have s3: "(d + 1) * K \<le> 16 * K"
    using d16 by (intro mult_le_mono1) simp
  have s4: "16 * (n * 1) + 16 * 1 \<le> 16 * (n * K) + 16 * K"
    using K1 by (intro add_mono mult_le_mono2)
  from s2 s3 big have next_fits: "(n * 16 + d + 1) * K \<le> M"
    unfolding s1 by linarith
  from s2 s4 big have n16: "n * 16 + 16 \<le> M" by simp
  then have n60: "\<not> maxUint64 div 16 + 1 \<le> n"
    unfolding M_def maxUint64_cutoff(1) by simp
  from n16 d16 have fit: "\<not> maxUint64 < n * 16 + d"
    unfolding M_def maxUint64_def by simp
  from next_fits have "(n * 16 + d + 1) * 16 ^ length cs \<le> 2 ^ 64"
    unfolding K_def M_def .
  from Cons.IH [OF rest this]
  have ih: "parseUintLoop (n * 16 + d) cs = Inr (hexValueFrom (n * 16 + d) cs)"
    "hexValueFrom (n * 16 + d) cs < (n * 16 + d + 1) * K"
    unfolding K_def by simp_all
  from ih(2) s3 have bound: "hexValueFrom (n * 16 + d) cs < (n + 1) * (16 * K)"
    unfolding s1 s2 by linarith
  have "parseUintLoop n (c # cs) = parseUintLoop (n * 16 + d) cs"
    using d n60 fit by simp
  moreover have "hexValueFrom n (c # cs) = hexValueFrom (n * 16 + d) cs"
    using d by (simp add: mult.commute)
  ultimately show ?case using ih(1) bound unfolding len by simp
qed

lemma kernelPort_value:
  assumes "kernelPort p"
  shows "strconv_ParseInt p = Inr (int (hexValue p)) \<and> hexValue p \<le> 65535"
proof -
  from assms have ne: "p \<noteq> []" and len: "length p \<le> 4" and hex: "list_all isHexDigit p"
    by (simp_all add: kernelPort_def)
  from len have "(16::nat) ^ length p \<le> 16 ^ 4" by (intro power_increasing) simp_all
  then have p16: "(16::nat) ^ length p \<le> 65536" by simp
  then have "(0 + 1) * 16 ^ length p \<le> (2::nat) ^ 64" by simp
  from parseUintLoop_value [OF hex this]
  have v: "parseUintLoop 0 p = Inr (hexValue p)" "hexValue p < 16 ^ length p"
    by (simp_all add: hexValue_def)
  from v(2) p16 have range: "hexValue p < 65536" by simp
  from ne hex have "isHexDigit (hd p)" by (cases p) simp_all
  then have nosign: "hd p \<noteq> CHR ''+''" "hd p \<noteq> CHR ''-''"
    using isHexDigit_not_sign by blast+
  from ne nosign v(1) range have "strconv_ParseInt p = Inr (int (hexValue p))"
    by (simp add: strconv_ParseInt_def strconv_ParseUint_def)
  with range show ?thesis by simp
qed

lemma strconv_FormatInt_nat: "strconv_FormatInt (int n) = uitoa n"
  by (simp add: strconv_FormatInt_def)

lemma kernelPort_parseAddress:
  assumes "parseAddress addr = Inr (ip, port)" "kernelPort (portPart addr)"
  shows "port = uitoa (hexValue (portPart addr)) \<and>
         parseDecimal port = Some (hexValue (portPart addr)) \<and> portInRange port"
proof -
  from parseAddress_success [OF assms(1)] obtain h p n where
    hp: "strings_Split (CHR '':'') addr = [h, p]" and n: "strconv_ParseInt p = Inr n"
    and port: "port = strconv_FormatInt n" by blast
  from hp have pp: "portPart addr = p" by (simp add: portPart_def)
  with assms(2) kernelPort_value [of p] n have "n = int (hexValue p)" "hexValue p \<le> 65535"
    by simp_all
  with port pp show ?thesis
    by (simp add: strconv_FormatInt_nat parseDecimal_uitoa portInRange_def)
qed

lemma scanRows_origin:
  "c \<in> set (fst (scanRows os rows conns s)) \<Longrightarrow>
     c \<in> set conns \<or>
     (\<exists>line. line \<in> set rows \<and> \<not> length (strings_Fields line) < 10 \<and>
        parseAddress (strings_Fields line ! 1) = Inr (sourceAddress c, sourcePort c) \<and>
        parseAddress (strings_Fields line ! 2) = Inr (destinationAddress c, destinationPort c) \<and>
        state c = connectionState (strings_Fields line ! 3))"
proof (induction rows arbitrary: conns s)
  case Nil
  then show ?case by simp
next
  case (Cons line rest)
  show ?case
  proof (cases "length (strings_Fields line) < 10")
    case True
    with Cons.prems have "c \<in> set (fst (scanRows os rest conns s))" by simp
    from Cons.IH [OF this] show ?thesis by auto
  next
    case short: False
    show ?thesis
    proof (cases "parseAddress (strings_Fields line ! 1)")
      case (Inl err)
      from Cons.prems scanRows_bad_local [OF short Inl]
      have "c \<in> set (fst (scanRows os rest conns
          (s\<lparr>logged := logged s @ [ErrParseLocal err]\<rparr>)))" by simp
      from Cons.IH [OF this] show ?thesis by auto
    next
      case local: (Inr src)
      show ?thesis
      proof (cases "parseAddress (strings_Fields line ! 2)")
        case (Inl err)
        from Cons.prems scanRows_bad_remote [OF short local Inl]
        have "c \<in> set (fst (scanRows os rest conns
            (s\<lparr>logged := logged s @ [ErrParseRemote err]\<rparr>)))" by simp
        from Cons.IH [OF this] show ?thesis by auto
      next
        case (Inr dst)
        obtain sa sp da dp where sd: "src = (sa, sp)" "dst = (da, dp)"
          by (cases src; cases dst) blast
        let ?r = "\<lparr>sourceAddress = sa, sourcePort = sp,
            destinationAddress = da, destinationPort = dp,
            state = connectionState (strings_Fields line ! 3),
            sourceInterface = fst (getInterfaceForIP os sa s)\<rparr>"
        from local Inr sd have l: "parseAddress (strings_Fields line ! 1) = Inr (sa, sp)"
          and r: "parseAddress (strings_Fields line ! 2) = Inr (da, dp)" by simp_all
        from Cons.prems scanRows_decoded [OF short l r]
        have "c \<in> set (fst (scanRows os rest (conns @ [?r])
            (snd (getInterfaceForIP os sa s))))" by simp
        from Cons.IH [OF this] have "c \<in> set (conns @ [?r]) \<or>
          (\<exists>line. line \<in> set rest \<and> \<not> length (strings_Fields line) < 10 \<and>
            parseAddress (strings_Fields line ! 1) = Inr (sourceAddress c, sourcePort c) \<and>
            parseAddress (strings_Fields line ! 2) =
              Inr (destinationAddress c, destinationPort c) \<and>
            state c = connectionState (strings_Fields line ! 3))" .
        then show ?thesis
        proof
          assume "c \<in> set (conns @ [?r])"
          then have "c \<in> set conns \<or> c = ?r" by auto
          then show ?thesis
          proof
            assume "c \<in> set conns"
            then show ?thesis by simp
          next
            assume "c = ?r"
            with short l r have "line \<in> set (line # rest) \<and>
                \<not> length (strings_Fields line) < 10 \<and>
                parseAddress (strings_Fields line ! 1) = Inr (sourceAddress c, sourcePort c) \<and>
                parseAddress (strings_Fields line ! 2) =
                  Inr (destinationAddress c, destinationPort c) \<and>
                state c = connectionState (strings_Fields line ! 3)" by simp
            then show ?thesis by blast
          qed
        next
          assume "\<exists>line. line \<in> set rest \<and> \<not> length (strings_Fields line) < 10 \<and>
            parseAddress (strings_Fields line ! 1) = Inr (sourceAddress c, sourcePort c) \<and>
            parseAddress (strings_Fields line ! 2) =
              Inr (destinationAddress c, destinationPort c) \<and>
            state c = connectionState (strings_Fields line ! 3)"
          then show ?thesis by auto
        qed
      qed
    qed
  qed
qed

lemma Fields_widePortRow:
  "strings_Fields widePortRow =
     [''0:'', ''0100007F:10000'', ''00000000:0000'', ''0A'', ''0'', ''0'', ''0'', ''0'', ''0'', ''0'']"
  by (simp add: widePortRow_def eval_fields)

lemma parseAddress_widePort: "parseAddress ''0100007F:10000'' = Inr (''127.0.0.1'', ''65536'')"
  by (simp add: eval_codec)

text \<open>
  Claim C9 bounds the port fields of every record by 65535. The program parses the
  port part as a 64-bit integer and checks no range: a row whose local port is written
  \<open>10000\<close> gives a record with the source port \<open>65536\<close>.
\<close>

theorem port_fields_counterexample:
  "map sourcePort (fst (scanRows exampleHost [widePortRow] [] initialState)) = [''65536''] \<and>
   parseDecimal ''65536'' = Some 65536 \<and> \<not> portInRange ''65536''"
  by (simp add: Fields_widePortRow parseAddress_widePort parseAddress_examples portInRange_def
      parseDecimal_def decimalDigit_def split: prod.splits)

lemma kernelRow_ports:
  assumes "c \<in> set (fst (scanRows os rows [] s))" "list_all kernelRow rows"
  shows "portInRange (sourcePort c) \<and> portInRange (destinationPort c)"
proof -
  from scanRows_origin [OF assms(1)] obtain line where line: "line \<in> set rows"
    "\<not> length (strings_Fields line) < 10"
    "parseAddress (strings_Fields line ! 1) = Inr (sourceAddress c, sourcePort c)"
    "parseAddress (strings_Fields line ! 2) = Inr (destinationAddress c, destinationPort c)"
    by auto
  from assms(2) line(1) have "kernelRow line" by (simp add: list_all_iff)
  with line(2) have k: "kernelPort (portPart (strings_Fields line ! 1))"
    "kernelPort (portPart (strings_Fields line ! 2))"
    by (simp_all add: kernelRow_def)
  from kernelPort_parseAddress [OF line(3) k(1)] kernelPort_parseAddress [OF line(4) k(2)]
  show ?thesis by blast
qed

text \<open>
  Claim C9, amended. Each port field of a record is \<^verbatim>\<open>strconv.FormatInt\<close> in base 10 of
  what \<^verbatim>\<open>strconv.ParseInt\<close> in base 16 returns for the port part of the row's address.
  When the port part has one to four hexadecimal digits, as the kernel writes it, the
  field is the decimal string of the base-16 value and that value is at most 65535; so
  every record read from a table whose rows have such port parts has both port fields
  in the range 0 to 65535.
\<close>

theorem port_fields:
  "(parseAddress addr = Inr (ip, port) \<longrightarrow>
      (\<exists>h p n. strings_Split (CHR '':'') addr = [h, p] \<and> strconv_ParseInt p = Inr n \<and>
         port = strconv_FormatInt n)) \<and>
   (parseAddress addr = Inr (ip, port) \<and> kernelPort (portPart addr) \<longrightarrow>
      port = uitoa (hexValue (portPart addr)) \<and>
      parseDecimal port = Some (hexValue (portPart addr)) \<and> portInRange port) \<and>
   (c \<in> set (fst (scanRows os rows [] s)) \<longrightarrow>
      (\<exists>line. line \<in> set rows \<and>
         parseAddress (strings_Fields line ! 1) = Inr (sourceAddress c, sourcePort c) \<and>
         parseAddress (strings_Fields line ! 2) =
           Inr (destinationAddress c, destinationPort c))) \<and>
   (c \<in> set (fst (scanRows os rows [] s)) \<and> list_all kernelRow rows \<longrightarrow>
      portInRange (sourcePort c) \<and> portInRange (destinationPort c)) \<and>
   (os_Open os file = Inr lines \<and> list_all kernelRow (drop 1 lines) \<and>
    getTCPConnections os file s = (Inr connections, s1) \<and> c \<in> set connections \<longrightarrow>
      portInRange (sourcePort c) \<and> portInRange (destinationPort c))"
proof (intro conjI impI)
  assume "parseAddress addr = Inr (ip, port)"
  from parseAddress_success [OF this]
  show "\<exists>h p n. strings_Split (CHR '':'') addr = [h, p] \<and> strconv_ParseInt p = Inr n \<and>
         port = strconv_FormatInt n" by blast
next
  assume a: "parseAddress addr = Inr (ip, port) \<and> kernelPort (portPart addr)"
  then have k: "port = uitoa (hexValue (portPart addr)) \<and>
      parseDecimal port = Some (hexValue (portPart addr)) \<and> portInRange port"
    using kernelPort_parseAddress by blast
  from k show "port = uitoa (hexValue (portPart addr))" by blast
  from k show "parseDecimal port = Some (hexValue (portPart addr))" by blast
  from k show "portInRange port" by blast
next
  assume "c \<in> set (fst (scanRows os rows [] s))"
  from scanRows_origin [OF this]
  show "\<exists>line. line \<in> set rows \<and>
         parseAddress (strings_Fields line ! 1) = Inr (sourceAddress c, sourcePort c) \<and>
         parseAddress (strings_Fields line ! 2) =
           Inr (destinationAddress c, destinationPort c)" by auto
next
  assume a: "c \<in> set (fst (scanRows os rows [] s)) \<and> list_all kernelRow rows"
  then have k: "portInRange (sourcePort c) \<and> portInRange (destinationPort c)"
    using kernelRow_ports by blast
  from k show "portInRange (sourcePort c)" ..
  from k show "portInRange (destinationPort c)" ..
next
  assume a: "os_Open os file = Inr lines \<and> list_all kernelRow (drop 1 lines) \<and>
    getTCPConnections os file s = (Inr connections, s1) \<and> c \<in> set connections"
  then have "connections = fst (scanRows os (drop 1 lines) [] (s\<lparr>opened := opened s @ [file]\<rparr>))"
    by (auto simp add: getTCPConnections_def split: prod.splits)
  with a have k: "portInRange (sourcePort c) \<and> portInRange (destinationPort c)"
    using kernelRow_ports by blast
  from k show "portInRange (sourcePort c)" ..
  from k show "portInRange (destinationPort c)" ..
qed

lemma kernelRow_examples: "kernelRow listenRow" "kernelRow oddStateRow"
  by (simp_all add: kernelRow_def Fields_listenRow Fields_oddStateRow portPart_def kernelPort_def
      isHexDigit_def fromHexChar_def reverseHexTable_def)

theorem port_fields_witness:
  "parseAddress ''0A01A8C0:01BB'' = Inr (''192.168.1.10'', ''443'') \<and>
   hexValue ''01BB'' = 443 \<and> parseDecimal ''443'' = Some 443 \<and> portInRange ''443'' \<and>
   list_all (\<lambda>c. portInRange (sourcePort c) \<and> portInRange (destinationPort c))
     (fst (scanRows exampleHost [listenRow, oddStateRow] []
        \<lparr>interfaceCache = None, ifaceCalls = 0, logged = [], opened = [''/proc/net/tcp'']\<rparr>))"
proof -
  let ?s = "\<lparr>interfaceCache = None, ifaceCalls = 0, logged = [], opened = [''/proc/net/tcp'']\<rparr>"
  let ?rows = "[listenRow, oddStateRow]"
  let ?c1 = "\<lparr>sourceAddress = ''127.0.0.1'', sourcePort = ''22'',
      destinationAddress = ''0.0.0.0'', destinationPort = ''0'',
      state = ''LISTEN'', sourceInterface = ''lo''\<rparr>"
  let ?c2 = "\<lparr>sourceAddress = ''192.168.1.10'', sourcePort = ''443'',
      destinationAddress = ''192.168.1.1'', destinationPort = ''50000'',
      state = ''UNKNOWN'', sourceInterface = ''eth0''\<rparr>"
  have pa: "parseAddress ''0A01A8C0:01BB'' = Inr (''192.168.1.10'', ''443'')"
    by (rule parseAddress_examples)
  have pp: "portPart ''0A01A8C0:01BB'' = ''01BB''" by (simp add: portPart_def)
  have kp: "kernelPort (portPart ''0A01A8C0:01BB'')"
    by (simp add: pp kernelPort_def isHexDigit_def fromHexChar_def reverseHexTable_def)
  have hv: "hexValue ''01BB'' = 443"
    by (simp add: hexValue_def fromHexChar_def reverseHexTable_def)
  from pa kp port_fields [of "''0A01A8C0:01BB''" "''192.168.1.10''" "''443''"]
  have w1: "parseDecimal ''443'' = Some (hexValue (portPart ''0A01A8C0:01BB'')) \<and>
      portInRange ''443''" by blast
  have rows: "fst (scanRows exampleHost ?rows [] ?s) = [?c1, ?c2]"
    by (simp only: exampleHost_rows fst_conv)
  have k: "list_all kernelRow ?rows" by (simp add: kernelRow_examples)
  have m1: "?c1 \<in> set (fst (scanRows exampleHost ?rows [] ?s)) \<and> list_all kernelRow ?rows"
    using k unfolding rows by simp
  have m2: "?c2 \<in> set (fst (scanRows exampleHost ?rows [] ?s)) \<and> list_all kernelRow ?rows"
    using k unfolding rows by simp
  from m1 port_fields [of _ _ _ ?c1 exampleHost ?rows ?s]
  have r1: "portInRange (sourcePort ?c1) \<and> portInRange (destinationPort ?c1)" by blast
  from m2 port_fields [of _ _ _ ?c2 exampleHost ?rows ?s]
  have r2: "portInRange (sourcePort ?c2) \<and> portInRange (destinationPort ?c2)" by blast
  from r1 r2 have "list_all (\<lambda>c. portInRange (sourcePort c) \<and> portInRange (destinationPort c))
      [?c1, ?c2]" by simp
  with pa hv w1 show ?thesis unfolding rows pp by simp
qed

end
